theory Spec2Isabelle
  imports Complex_Main
begin

section \<open>Instants and the calendar of the database engine\<close>

text \<open>
  The stored procedures compute with \<^verbatim>\<open>timestamptz\<close> values. An instant is the number of
  microseconds since 1970-01-01 00:00:00 UTC, as an integer. The engine holds the instants
  from 4714-11-24 BC to the end of the year 294276, and raises "timestamp out of range"
  when adding an interval to an instant leaves that range. The session time zone is taken
  to be UTC (the engine adds days and months on the civil date of the session's zone), so a
  day is always 86400 seconds and the civil date of an instant is its proleptic Gregorian
  date. The two instants \<^verbatim>\<open>infinity\<close> and \<^verbatim>\<open>-infinity\<close> are left out, and the difference
  of two instants is taken exactly.
\<close>

type_synonym timestamptz = int

definition min_timestamp :: timestamptz where
  "min_timestamp = - 210866803200000000"

definition end_timestamp :: timestamptz where
  "end_timestamp = 9224318016000000000"

definition is_valid_timestamp :: "timestamptz \<Rightarrow> bool" where
  "is_valid_timestamp t = (min_timestamp \<le> t \<and> t < end_timestamp)"

definition usecs_per_day :: int where
  "usecs_per_day = 86400000000"

definition is_leap :: "int \<Rightarrow> bool" where
  "is_leap y = (y mod 4 = 0 \<and> (y mod 100 \<noteq> 0 \<or> y mod 400 = 0))"

definition days_in_month :: "int \<Rightarrow> int \<Rightarrow> int" where
  "days_in_month y m =
     (if m = 2 then (if is_leap y then 29 else 28)
      else if m = 4 \<or> m = 6 \<or> m = 9 \<or> m = 11 then 30 else 31)"

text \<open>Days from 0001-01-01 to the first of January of year \<open>y\<close>.\<close>

definition days_before_year :: "int \<Rightarrow> int" where
  "days_before_year y = 365 * (y - 1) + (y - 1) div 4 - (y - 1) div 100 + (y - 1) div 400"

text \<open>Days from the first of January of year \<open>y\<close> to the first of month \<open>m\<close>.\<close>

definition days_before_month :: "int \<Rightarrow> int \<Rightarrow> int" where
  "days_before_month y m = sum_list (map (days_in_month y) [1 .. m - 1])"

text \<open>0001-01-01 is day \<open>-719162\<close> of the Unix era.\<close>

definition days_from_civil :: "int \<Rightarrow> int \<Rightarrow> int \<Rightarrow> int" where
  "days_from_civil y m d = days_before_year y + days_before_month y m + (d - 1) - 719162"

text \<open>
  From a day of the year (counted from 0) to month and day of month: walk through the
  months, taking each month's length off.
\<close>

fun month_day_from :: "int \<Rightarrow> nat \<Rightarrow> int \<Rightarrow> int \<Rightarrow> int \<times> int" where
  "month_day_from y 0 m r = (m, r + 1)"
| "month_day_from y (Suc k) m r =
     (if r < days_in_month y m then (m, r + 1)
      else month_day_from y k (m + 1) (r - days_in_month y m))"

text \<open>
  The civil date of a day number, by the cycles of 400, 100, 4 and 1 years. The last year
  of a cycle of 4 years and the last century of a cycle of 400 years are one day longer,
  hence the two \<open>min\<close>.
\<close>

definition civil_from_days :: "int \<Rightarrow> int \<times> int \<times> int" where
  "civil_from_days z =
     (let n = z + 719162;
          n400 = n div 146097;
          r400 = n mod 146097;
          n100 = min 3 (r400 div 36524);
          r100 = r400 - n100 * 36524;
          n4 = r100 div 1461;
          r4 = r100 mod 1461;
          n1 = min 3 (r4 div 365);
          doy = r4 - n1 * 365;
          y = 400 * n400 + 100 * n100 + 4 * n4 + n1 + 1;
          (m, d) = month_day_from y 11 1 doy
      in (y, m, d))"

text \<open>
  The instant that \<^verbatim>\<open>timestamptz + INTERVAL 'n days'\<close> computes, before the engine checks
  it against its range: the same time of day, \<open>n\<close> days later; in UTC every day has the
  same length.
\<close>

definition timestamptz_pl_days :: "timestamptz \<Rightarrow> int \<Rightarrow> timestamptz" where
  "timestamptz_pl_days t n = t + n * usecs_per_day"

text \<open>
  The instant that \<^verbatim>\<open>timestamptz + INTERVAL 'n months'\<close> computes (a year is 12 months),
  before the range check: the month of the civil date moves by \<open>n\<close>, the day of the month
  is cut down to the length of the new month, the time of day stays.
\<close>

definition timestamptz_pl_months :: "timestamptz \<Rightarrow> int \<Rightarrow> timestamptz" where
  "timestamptz_pl_months t n =
     (let (y, m, d) = civil_from_days (t div usecs_per_day);
          k = y * 12 + (m - 1) + n;
          y' = k div 12;
          m' = k mod 12 + 1;
          d' = min d (days_in_month y' m')
      in days_from_civil y' m' d' * usecs_per_day + t mod usecs_per_day)"

text \<open>
  \<^verbatim>\<open>EXTRACT(DAY FROM (a - b))\<close>: the difference of two instants is an interval whose hours
  are carried into whole days, towards zero; its day field is read.
\<close>

definition extract_day :: "int \<Rightarrow> int" where
  "extract_day dt = (if dt < 0 then - ((- dt) div usecs_per_day) else dt div usecs_per_day)"

subsection \<open>Printing dates and numbers\<close>

definition digit_char :: "nat \<Rightarrow> char" where
  "digit_char n = ''0123456789'' ! (n mod 10)"

fun show_nat :: "nat \<Rightarrow> string" where
  "show_nat n = (if n < 10 then [digit_char n] else show_nat (n div 10) @ [digit_char n])"

declare show_nat.simps [simp del]

text \<open>An \<^verbatim>\<open>integer\<close> as \<^verbatim>\<open>text\<close>.\<close>

definition show_int :: "int \<Rightarrow> string" where
  "show_int i = (if i < 0 then CHR ''-'' # show_nat (nat (- i)) else show_nat (nat i))"

definition zero_pad :: "nat \<Rightarrow> string \<Rightarrow> string" where
  "zero_pad w s = replicate (w - length s) CHR ''0'' @ s"

definition month_abbrev :: "int \<Rightarrow> string" where
  "month_abbrev m =
     [''Jan'', ''Feb'', ''Mar'', ''Apr'', ''May'', ''Jun'',
      ''Jul'', ''Aug'', ''Sep'', ''Oct'', ''Nov'', ''Dec''] ! nat (m - 1)"

text \<open>
  \<^verbatim>\<open>to_char(t, 'Mon DD, YYYY')\<close>: the month's short name, the day on two digits, the year
  on at least four. A year before the common era is printed as its positive number.
\<close>

definition to_char_mon_dd_yyyy :: "timestamptz \<Rightarrow> string" where
  "to_char_mon_dd_yyyy t =
     (let (y, m, d) = civil_from_days (t div usecs_per_day);
          yy = (if y \<le> 0 then 1 - y else y)
      in month_abbrev m @ '' '' @ zero_pad 2 (show_int d) @ '', '' @ zero_pad 4 (show_int yy))"

text \<open>The dash between the two dates is U+2013, three bytes in UTF-8.\<close>

definition en_dash :: string where
  "en_dash = [CHR 0xE2, CHR 0x80, CHR 0x93]"

section \<open>The subscriptions table\<close>

text \<open>
  The declarations of the two enumerations and of the table are not among the migrations
  at hand; the labels are those the procedures and the client's \<^verbatim>\<open>Subscription\<close> interface
  name. The procedures that branch on the plan carry an \<^verbatim>\<open>ELSE\<close>: \<open>Unlisted_plan\<close> stands
  for a value that matches none of the four \<^verbatim>\<open>WHEN\<close> labels.
\<close>

datatype subscription_plan_type = Trial | Monthly | Semiannual | Annual | Unlisted_plan

datatype subscription_status = Active | Expired | Cancelled | Past_due

type_synonym uuid = string

text \<open>
  A row of \<^verbatim>\<open>subscriptions\<close>. The column \<^verbatim>\<open>id\<close> is \<open>id_col\<close> here. The two provider
  references and the two derived columns can be \<^verbatim>\<open>NULL\<close>.
\<close>

record subscriptions =
  id_col :: uuid
  user_id :: uuid
  plan_type :: subscription_plan_type
  status :: subscription_status
  stripe_subscription_id :: "string option"
  stripe_customer_id :: "string option"
  current_period_start :: timestamptz
  current_period_end :: timestamptz
  billing_period_text :: "string option"
  billing_period_accurate :: "bool option"
  created_at :: timestamptz
  updated_at :: timestamptz

text \<open>
  What a procedure raises. The first four are the messages of \<^verbatim>\<open>RAISE EXCEPTION\<close>. The
  others come from the engine: the failure of the cast \<^verbatim>\<open>p_status::subscription_status\<close>,
  an instant out of range, and \<^verbatim>\<open>UPDATE ... RETURNING * INTO\<close> returning more than one row
  ("query returned more than one row"). An exception undoes what the call has written.
\<close>

datatype error =
    No_subscription_found
  | Subscription_not_cancelled
  | Subscription_already_expired
  | Subscription_not_active
  | Invalid_status_label string
  | Timestamp_out_of_range
  | Too_many_rows

section \<open>Period end, billing text, accuracy\<close>

text \<open>
  The range check that ends the addition of an interval to an instant. The instant an
  interval is added to is a value of the engine, hence within the range; on any other
  integer the functions below compute all the same.
\<close>

definition check_timestamp :: "timestamptz \<Rightarrow> error + timestamptz" where
  "check_timestamp t = (if is_valid_timestamp t then Inr t else Inl Timestamp_out_of_range)"

definition calculate_subscription_period_end ::
    "subscription_plan_type \<Rightarrow> timestamptz \<Rightarrow> error + timestamptz" where
  "calculate_subscription_period_end plan period_start =
     (case plan of
        Trial \<Rightarrow> check_timestamp (timestamptz_pl_days period_start 30)
      | Monthly \<Rightarrow> check_timestamp (timestamptz_pl_months period_start 1)
      | Semiannual \<Rightarrow> check_timestamp (timestamptz_pl_months period_start 6)
      | Annual \<Rightarrow> check_timestamp (timestamptz_pl_months period_start 12)
      | _ \<Rightarrow> check_timestamp (timestamptz_pl_days period_start 30))"

text \<open>The first argument is the value of \<^verbatim>\<open>now()\<close>, which the text's prefix reads.\<close>

definition generate_billing_period_text ::
    "timestamptz \<Rightarrow> timestamptz \<Rightarrow> timestamptz \<Rightarrow> subscription_plan_type \<Rightarrow> string" where
  "generate_billing_period_text now period_start period_end plan =
     (let actual_days = extract_day (period_end - period_start);
          is_expired = (period_end \<le> now);
          start_formatted = to_char_mon_dd_yyyy period_start;
          end_formatted = to_char_mon_dd_yyyy period_end;
          duration_text =
            (case plan of
               Trial \<Rightarrow> show_int actual_days @ '' day trial''
             | Monthly \<Rightarrow> ''1 month''
             | Semiannual \<Rightarrow> ''6 months''
             | Annual \<Rightarrow> ''1 year''
             | _ \<Rightarrow> show_int actual_days @ '' days'');
          status_prefix = (if is_expired then ''Expired: '' else [])
      in status_prefix @ start_formatted @ '' '' @ en_dash @ '' '' @ end_formatted
           @ '' ('' @ duration_text @ '')'')"

definition validate_billing_period_accuracy ::
    "timestamptz \<Rightarrow> timestamptz \<Rightarrow> subscription_plan_type \<Rightarrow> error + bool" where
  "validate_billing_period_accuracy period_start period_end plan =
     (case calculate_subscription_period_end plan period_start of
        Inl e \<Rightarrow> Inl e
      | Inr expected_end \<Rightarrow>
          (let tolerance_days = 2;
               actual_days = extract_day (period_end - period_start);
               expected_days = extract_day (expected_end - period_start)
           in Inr (\<bar>actual_days - expected_days\<bar> \<le> tolerance_days)))"

text \<open>
  The trigger function: it fills the two derived columns of the row about to be written.
  What the accuracy check raises, the trigger raises.
\<close>

definition update_billing_period_text ::
    "timestamptz \<Rightarrow> subscriptions \<Rightarrow> error + subscriptions" where
  "update_billing_period_text now NEW =
     (case validate_billing_period_accuracy
             (current_period_start NEW) (current_period_end NEW) (plan_type NEW) of
        Inl e \<Rightarrow> Inl e
      | Inr accurate \<Rightarrow>
          Inr (NEW\<lparr>billing_period_text :=
                     Some (generate_billing_period_text now
                             (current_period_start NEW) (current_period_end NEW) (plan_type NEW)),
                   billing_period_accurate := Some accurate\<rparr>))"

text \<open>
  The table is the list of its rows, in the order a scan meets them at the time of the
  call. The trigger \<^verbatim>\<open>trigger_update_billing_period_text\<close> is
  \<^verbatim>\<open>BEFORE INSERT OR UPDATE ... FOR EACH ROW\<close>: every row an \<^verbatim>\<open>UPDATE\<close> or an \<^verbatim>\<open>INSERT\<close>
  writes goes through the trigger function within that write, and the write stops at the
  first row on which the trigger raises. A rewritten row is kept at its place in the list;
  where a later scan of the engine meets it is not fixed by the sources, which matters
  only when a later call selects among several rows of one user.
\<close>

fun for_each_row ::
    "(subscriptions \<Rightarrow> error + subscriptions) \<Rightarrow> subscriptions list
       \<Rightarrow> error + subscriptions list" where
  "for_each_row f [] = Inr []"
| "for_each_row f (r # rs) =
     (case f r of
        Inl e \<Rightarrow> Inl e
      | Inr r' \<Rightarrow> (case for_each_row f rs of Inl e \<Rightarrow> Inl e | Inr rs' \<Rightarrow> Inr (r' # rs')))"

definition sql_update ::
    "timestamptz \<Rightarrow> (subscriptions \<Rightarrow> bool) \<Rightarrow> (subscriptions \<Rightarrow> subscriptions)
       \<Rightarrow> subscriptions list \<Rightarrow> error + subscriptions list" where
  "sql_update now wh set_cols tbl =
     for_each_row (\<lambda>r. if wh r then update_billing_period_text now (set_cols r) else Inr r) tbl"

definition sql_insert ::
    "timestamptz \<Rightarrow> subscriptions \<Rightarrow> subscriptions list \<Rightarrow> error + subscriptions list" where
  "sql_insert now r tbl =
     (case update_billing_period_text now r of Inl e \<Rightarrow> Inl e | Inr r' \<Rightarrow> Inr (tbl @ [r']))"

text \<open>
  \<^verbatim>\<open>SELECT * INTO v FROM subscriptions WHERE user_id = p_user_id\<close>, with no \<^verbatim>\<open>ORDER BY\<close>
  and not \<^verbatim>\<open>STRICT\<close>: the first row met, further rows being dropped.
\<close>

definition select_by_user :: "uuid \<Rightarrow> subscriptions list \<Rightarrow> subscriptions option" where
  "select_by_user p_user_id tbl = find (\<lambda>r. user_id r = p_user_id) tbl"

section \<open>The webhook handler\<close>

text \<open>The cast of a label to \<^verbatim>\<open>subscription_status\<close>; \<open>None\<close> when the database rejects it.\<close>

definition subscription_status_in :: "string \<Rightarrow> subscription_status option" where
  "subscription_status_in s =
     (if s = ''active'' then Some Active
      else if s = ''expired'' then Some Expired
      else if s = ''cancelled'' then Some Cancelled
      else if s = ''past_due'' then Some Past_due
      else None)"

text \<open>\<^verbatim>\<open>COALESCE(a, b)\<close> of two nullable values.\<close>

definition coalesce :: "'a option \<Rightarrow> 'a option \<Rightarrow> 'a option" where
  "coalesce a b = (case a of Some v \<Rightarrow> Some v | None \<Rightarrow> b)"

text \<open>
  Modelled from the spec: the table's declaration is not among the sources, so the values
  of the columns that the \<^verbatim>\<open>INSERT\<close> does not list are taken from the data model: the
  identifier is generated on creation (the argument \<open>new_id\<close>), both timestamps are the
  instant of the write, and the derived columns have no value before the trigger.
\<close>

definition new_subscription ::
    "timestamptz \<Rightarrow> uuid \<Rightarrow> uuid \<Rightarrow> subscription_plan_type \<Rightarrow> subscription_status
       \<Rightarrow> string option \<Rightarrow> string option \<Rightarrow> timestamptz \<Rightarrow> timestamptz \<Rightarrow> subscriptions" where
  "new_subscription now new_id p_user_id p_plan_type st p_stripe_subscription_id
                    p_stripe_customer_id period_start period_end =
     \<lparr>id_col = new_id,
      user_id = p_user_id,
      plan_type = p_plan_type,
      status = st,
      stripe_subscription_id = p_stripe_subscription_id,
      stripe_customer_id = p_stripe_customer_id,
      current_period_start = period_start,
      current_period_end = period_end,
      billing_period_text = None,
      billing_period_accurate = None,
      created_at = now,
      updated_at = now\<rparr>"

text \<open>
  \<^verbatim>\<open>handle_subscription_webhook\<close> of the final migration. The result is the row that
  \<^verbatim>\<open>RETURNING * INTO subscription_record\<close> yields (the JSON object returned is built from
  its columns) and the table after the call. \<open>now\<close> is the value of \<^verbatim>\<open>now()\<close> and
  \<open>new_id\<close> the identifier a new row would get. The \<^verbatim>\<open>UPDATE\<close> returns the rows it has
  rewritten, the rows of the user, of which there is at least the one found; \<^verbatim>\<open>INTO\<close>
  takes a single row and raises when there are more (all rows get the same period and
  plan, so the trigger raises on each or on none).
\<close>

definition handle_subscription_webhook ::
    "timestamptz \<Rightarrow> uuid \<Rightarrow> uuid \<Rightarrow> subscription_plan_type \<Rightarrow> string
       \<Rightarrow> string option \<Rightarrow> string option \<Rightarrow> timestamptz option \<Rightarrow> timestamptz option
       \<Rightarrow> subscriptions list \<Rightarrow> error + (subscriptions \<times> subscriptions list)" where
  "handle_subscription_webhook now new_id p_user_id p_plan_type p_status
       p_stripe_subscription_id p_stripe_customer_id p_period_start p_period_end tbl =
     (let calculated_period_start = (case p_period_start of Some s \<Rightarrow> s | None \<Rightarrow> now)
      in case (case p_period_end of
                 None \<Rightarrow> calculate_subscription_period_end p_plan_type calculated_period_start
               | Some e \<Rightarrow> Inr e) of
           Inl e \<Rightarrow> Inl e
         | Inr calculated_period_end \<Rightarrow>
            (case select_by_user p_user_id tbl of
               Some found \<Rightarrow>
                 (case subscription_status_in p_status of
                    None \<Rightarrow> Inl (Invalid_status_label p_status)
                  | Some st \<Rightarrow>
                      (let set_cols = (\<lambda>r. r\<lparr>plan_type := p_plan_type,
                                             status := st,
                                             stripe_subscription_id :=
                                               coalesce p_stripe_subscription_id
                                                 (stripe_subscription_id r),
                                             stripe_customer_id :=
                                               coalesce p_stripe_customer_id (stripe_customer_id r),
                                             current_period_start := calculated_period_start,
                                             current_period_end := calculated_period_end,
                                             updated_at := now\<rparr>)
                       in case sql_update now (\<lambda>r. user_id r = p_user_id) set_cols tbl of
                            Inl e \<Rightarrow> Inl e
                          | Inr tbl' \<Rightarrow>
                              (case filter (\<lambda>r. user_id r = p_user_id) tbl' of
                                 [subscription_record] \<Rightarrow> Inr (subscription_record, tbl')
                               | _ \<Rightarrow> Inl Too_many_rows)))
             | None \<Rightarrow>
                 (case subscription_status_in p_status of
                    None \<Rightarrow> Inl (Invalid_status_label p_status)
                  | Some st \<Rightarrow>
                      (case update_billing_period_text now
                              (new_subscription now new_id p_user_id p_plan_type st
                                 p_stripe_subscription_id p_stripe_customer_id
                                 calculated_period_start calculated_period_end) of
                         Inl e \<Rightarrow> Inl e
                       | Inr subscription_record \<Rightarrow>
                           Inr (subscription_record, tbl @ [subscription_record])))))"

section \<open>Access status and the lifecycle operations\<close>

text \<open>
  \<^verbatim>\<open>ORDER BY s.created_at DESC LIMIT 1\<close> over the user's rows: a row created last; among
  rows created at the same instant, the one a scan meets first.
\<close>

fun latest_created :: "subscriptions list \<Rightarrow> subscriptions option" where
  "latest_created [] = None"
| "latest_created (r # rs) =
     (case latest_created rs of
        None \<Rightarrow> Some r
      | Some r' \<Rightarrow> if created_at r < created_at r' then Some r' else Some r)"

text \<open>
  The one row \<^verbatim>\<open>get_subscription_access_status\<close> returns. Columns that share a name with
  a column of the table end in \<open>_out\<close>.
\<close>

record access_status =
  subscription_id :: "uuid option"
  plan_type_out :: subscription_plan_type
  status_out :: subscription_status
  stripe_subscription_id_out :: "string option"
  stripe_customer_id_out :: "string option"
  current_period_start_out :: timestamptz
  current_period_end_out :: timestamptz
  has_access :: bool
  days_remaining :: int
  is_expired :: bool
  is_cancelled :: bool
  billing_period_text_out :: string
  created_at_out :: timestamptz
  updated_at_out :: timestamptz

text \<open>
  \<^verbatim>\<open>format('%s - %s (%s)', ...)\<close> with the dash U+2013; the \<^verbatim>\<open>CASE\<close> has no \<^verbatim>\<open>ELSE\<close>, and
  \<^verbatim>\<open>format\<close> prints a \<^verbatim>\<open>NULL\<close> argument as the empty string.
\<close>

definition access_billing_period_text ::
    "timestamptz \<Rightarrow> timestamptz \<Rightarrow> subscription_plan_type \<Rightarrow> string" where
  "access_billing_period_text period_start period_end plan =
     to_char_mon_dd_yyyy period_start @ '' '' @ en_dash @ '' '' @ to_char_mon_dd_yyyy period_end
       @ '' ('' @
       (case plan of
          Trial \<Rightarrow> ''30 days''
        | Monthly \<Rightarrow> ''1 month''
        | Semiannual \<Rightarrow> ''6 months''
        | Annual \<Rightarrow> ''1 year''
        | _ \<Rightarrow> [])
       @ '')''"

text \<open>
  The instant \<open>v_now\<close> is the clock's; the range check of \<^verbatim>\<open>v_now + INTERVAL '30 days'\<close>
  is left out.
\<close>

definition get_subscription_access_status ::
    "timestamptz \<Rightarrow> uuid \<Rightarrow> subscriptions list \<Rightarrow> access_status" where
  "get_subscription_access_status v_now p_user_id tbl =
     (case latest_created (filter (\<lambda>s. user_id s = p_user_id) tbl) of
        None \<Rightarrow>
          \<lparr>subscription_id = None,
           plan_type_out = Trial,
           status_out = Active,
           stripe_subscription_id_out = None,
           stripe_customer_id_out = None,
           current_period_start_out = v_now,
           current_period_end_out = timestamptz_pl_days v_now 30,
           has_access = True,
           days_remaining = 30,
           is_expired = False,
           is_cancelled = False,
           billing_period_text_out = ''Free Trial - 30 days'',
           created_at_out = v_now,
           updated_at_out = v_now\<rparr>
      | Some v_subscription \<Rightarrow>
          (let v_is_expired = (current_period_end v_subscription \<le> v_now);
               v_is_cancelled = (status v_subscription = Cancelled);
               v_days_remaining =
                 max 0 (extract_day (current_period_end v_subscription - v_now));
               v_has_access =
                 (status v_subscription = Active \<or> (v_is_cancelled \<and> \<not> v_is_expired));
               v_billing_period_text =
                 access_billing_period_text (current_period_start v_subscription)
                   (current_period_end v_subscription) (plan_type v_subscription)
           in \<lparr>subscription_id = Some (id_col v_subscription),
               plan_type_out = plan_type v_subscription,
               status_out = status v_subscription,
               stripe_subscription_id_out = stripe_subscription_id v_subscription,
               stripe_customer_id_out = stripe_customer_id v_subscription,
               current_period_start_out = current_period_start v_subscription,
               current_period_end_out = current_period_end v_subscription,
               has_access = v_has_access,
               days_remaining = v_days_remaining,
               is_expired = v_is_expired,
               is_cancelled = v_is_cancelled,
               billing_period_text_out = v_billing_period_text,
               created_at_out = created_at v_subscription,
               updated_at_out = updated_at v_subscription\<rparr>))"

text \<open>
  \<^verbatim>\<open>reactivate_subscription\<close>. The payment method takes no part in what the procedure does.
  The \<^verbatim>\<open>UPDATE\<close> rewrites every row of the user.
\<close>

definition reactivate_subscription ::
    "timestamptz \<Rightarrow> uuid \<Rightarrow> string \<Rightarrow> subscriptions list \<Rightarrow> error + subscriptions list" where
  "reactivate_subscription now p_user_id p_payment_method_id tbl =
     (case select_by_user p_user_id tbl of
        None \<Rightarrow> Inl No_subscription_found
      | Some v_subscription \<Rightarrow>
          if status v_subscription \<noteq> Cancelled then Inl Subscription_not_cancelled
          else if current_period_end v_subscription \<le> now then Inl Subscription_already_expired
          else sql_update now (\<lambda>r. user_id r = p_user_id)
                 (\<lambda>r. r\<lparr>status := Active, updated_at := now\<rparr>) tbl)"

text \<open>\<^verbatim>\<open>cancel_subscription_safe\<close>. The reason goes to a notice only.\<close>

definition cancel_subscription_safe ::
    "timestamptz \<Rightarrow> uuid \<Rightarrow> string option \<Rightarrow> subscriptions list \<Rightarrow> error + subscriptions list" where
  "cancel_subscription_safe now p_user_id p_reason tbl =
     (case select_by_user p_user_id tbl of
        None \<Rightarrow> Inl No_subscription_found
      | Some v_subscription \<Rightarrow>
          if status v_subscription \<noteq> Active then Inl Subscription_not_active
          else sql_update now (\<lambda>r. user_id r = p_user_id)
                 (\<lambda>r. r\<lparr>status := Cancelled, updated_at := now\<rparr>) tbl)"

text \<open>
  The table a call leaves behind: an exception undoes the call, so the table is the one
  before it.
\<close>

definition table_after :: "error + subscriptions list \<Rightarrow> subscriptions list \<Rightarrow> subscriptions list" where
  "table_after res tbl = (case res of Inl e \<Rightarrow> tbl | Inr tbl' \<Rightarrow> tbl')"

text \<open>
  \<^verbatim>\<open>fix_existing_billing_periods\<close>: the loop runs over the rows that the query found
  flagged inaccurate or not flagged at all; for each, the rows with its identifier get
  the period end calculated from its plan and period start.
\<close>

fun fix_loop ::
    "timestamptz \<Rightarrow> subscriptions list \<Rightarrow> subscriptions list \<Rightarrow> error + subscriptions list" where
  "fix_loop now [] tbl = Inr tbl"
| "fix_loop now (sub_record # others) tbl =
     (case calculate_subscription_period_end (plan_type sub_record)
             (current_period_start sub_record) of
        Inl e \<Rightarrow> Inl e
      | Inr corrected_end \<Rightarrow>
          (case sql_update now (\<lambda>r. id_col r = id_col sub_record)
                  (\<lambda>r. r\<lparr>current_period_end := corrected_end, updated_at := now\<rparr>) tbl of
             Inl e \<Rightarrow> Inl e
           | Inr tbl' \<Rightarrow> fix_loop now others tbl'))"

definition fix_existing_billing_periods ::
    "timestamptz \<Rightarrow> subscriptions list \<Rightarrow> error + subscriptions list" where
  "fix_existing_billing_periods now tbl =
     fix_loop now
       (filter (\<lambda>r. billing_period_accurate r = Some False \<or> billing_period_accurate r = None) tbl)
       tbl"

section \<open>Notions the properties are stated with\<close>

definition days_in_year :: "int \<Rightarrow> int" where
  "days_in_year y = (if is_leap y then 366 else 365)"

text \<open>A row with its \<^verbatim>\<open>updated_at\<close> blanked, to compare rows apart from that column.\<close>

definition without_updated_at :: "subscriptions \<Rightarrow> subscriptions" where
  "without_updated_at r = r\<lparr>updated_at := 0\<rparr>"

text \<open>
  The derived columns of a row agree with its period and plan, the text being the one
  generated at the instant \<open>now\<close>.
\<close>

definition derived_consistent :: "timestamptz \<Rightarrow> subscriptions \<Rightarrow> bool" where
  "derived_consistent now r =
     (billing_period_text r =
        Some (generate_billing_period_text now
                (current_period_start r) (current_period_end r) (plan_type r)) \<and>
      (case billing_period_accurate r of
         None \<Rightarrow> False
       | Some accurate \<Rightarrow>
           validate_billing_period_accuracy
             (current_period_start r) (current_period_end r) (plan_type r) = Inr accurate))"

definition period_ordered :: "subscriptions \<Rightarrow> bool" where
  "period_ordered r = (current_period_start r < current_period_end r)"

text \<open>
  The offsets of the specification, on the civil date: the date one calendar month, six
  calendar months and one calendar year after a date, the day of the month cut down to the
  length of the month reached. \<open>instant_at\<close> is the instant at a time of day (in
  microseconds) of a civil date.
\<close>

definition one_month_later :: "int \<times> int \<times> int \<Rightarrow> int \<times> int \<times> int" where
  "one_month_later date =
     (case date of (y, m, d) \<Rightarrow>
        if m = 12 then (y + 1, 1, d) else (y, m + 1, min d (days_in_month y (m + 1))))"

definition six_months_later :: "int \<times> int \<times> int \<Rightarrow> int \<times> int \<times> int" where
  "six_months_later date =
     (case date of (y, m, d) \<Rightarrow>
        if 6 < m then (y + 1, m - 6, min d (days_in_month (y + 1) (m - 6)))
        else (y, m + 6, min d (days_in_month y (m + 6))))"

definition one_year_later :: "int \<times> int \<times> int \<Rightarrow> int \<times> int \<times> int" where
  "one_year_later date =
     (case date of (y, m, d) \<Rightarrow> (y + 1, m, min d (days_in_month (y + 1) m)))"

definition instant_at :: "int \<times> int \<times> int \<Rightarrow> int \<Rightarrow> timestamptz" where
  "instant_at date tod =
     (case date of (y, m, d) \<Rightarrow> days_from_civil y m d * usecs_per_day + tod)"

subsection \<open>Rows and instants for the examples\<close>

text \<open>Midnight UTC of 2024-01-15, in microseconds, and one day.\<close>

definition jan15 :: timestamptz where
  "jan15 = 1705276800000000"

definition day :: int where
  "day = 86400000000"

text \<open>A monthly subscription of user \<open>u1\<close>, from 2024-01-15 to 2024-02-15.\<close>

definition row_u1 :: "subscription_status \<Rightarrow> subscriptions" where
  "row_u1 st =
     \<lparr>id_col = ''s1'',
      user_id = ''u1'',
      plan_type = Monthly,
      status = st,
      stripe_subscription_id = Some ''sub_A'',
      stripe_customer_id = Some ''cus_A'',
      current_period_start = jan15,
      current_period_end = jan15 + 31 * day,
      billing_period_text = None,
      billing_period_accurate = None,
      created_at = jan15,
      updated_at = jan15\<rparr>"

text \<open>An older row of the same user and a row of another user.\<close>

definition row_u1_old :: subscriptions where
  "row_u1_old =
     \<lparr>id_col = ''s0'',
      user_id = ''u1'',
      plan_type = Trial,
      status = Expired,
      stripe_subscription_id = None,
      stripe_customer_id = None,
      current_period_start = jan15 - 60 * day,
      current_period_end = jan15 - 30 * day,
      billing_period_text = None,
      billing_period_accurate = None,
      created_at = jan15 - 60 * day,
      updated_at = jan15 - 60 * day\<rparr>"

definition row_u2 :: subscriptions where
  "row_u2 =
     \<lparr>id_col = ''s2'',
      user_id = ''u2'',
      plan_type = Annual,
      status = Active,
      stripe_subscription_id = None,
      stripe_customer_id = None,
      current_period_start = jan15,
      current_period_end = jan15 + 366 * day,
      billing_period_text = None,
      billing_period_accurate = None,
      created_at = jan15,
      updated_at = jan15\<rparr>"

section \<open>The calendar: a day number and its civil date\<close>

text \<open>
  \<open>civil_from_days\<close> yields a date of the calendar whose day number is the one it was
  given (\<open>civil_from_days_props\<close>), and the day number grows with the date; so adding a
  positive number of months moves an instant forward by at least 28 days. The day number
  of a date of the calendar gives the date back (\<open>civil_from_days_inverse\<close>).
\<close>

lemma div_pred:
  fixes y c :: int
  assumes "0 < c"
  shows "(y - 1) div c = (if y mod c = 0 then y div c - 1 else y div c)"
proof (cases "y mod c = 0")
  case True
  define q where "q = y div c"
  have "y = c * q"
    unfolding q_def using True mult_div_mod_eq [of c y] by simp
  then have "y - 1 = c * (q - 1) + (c - 1)"
    by (simp add: algebra_simps)
  then have "(y - 1) div c = q - 1"
    by (rule int_div_pos_eq [where r = "c - 1"]) (use assms in simp_all)
  then have "(y - 1) div c = y div c - 1"
    unfolding q_def .
  with True show ?thesis by simp
next
  case False
  have r: "0 \<le> y mod c" "y mod c < c" using assms by simp_all
  have "y - 1 = c * (y div c) + (y mod c - 1)" by simp
  moreover have "0 \<le> y mod c - 1" using r False by linarith
  moreover have "y mod c - 1 < c" using r by linarith
  ultimately have "(y - 1) div c = y div c"
    by (rule int_div_pos_eq)
  with False show ?thesis by simp
qed


lemma days_before_year_Suc: "days_before_year (y + 1) = days_before_year y + days_in_year y"
proof -
  have a: "(y - 1) div 4 = (if y mod 4 = 0 then y div 4 - 1 else y div 4)" by (rule div_pred) simp
  have b: "(y - 1) div 100 = (if y mod 100 = 0 then y div 100 - 1 else y div 100)" by (rule div_pred) simp
  have c: "(y - 1) div 400 = (if y mod 400 = 0 then y div 400 - 1 else y div 400)" by (rule div_pred) simp
  have d: "y mod 400 = 0 \<Longrightarrow> y mod 100 = 0" by presburger
  have e: "y mod 100 = 0 \<Longrightarrow> y mod 4 = 0" by presburger
  show ?thesis
    unfolding days_before_year_def days_in_year_def is_leap_def
    using d e by (simp add: a b c)
qed

lemma year_split:
  fixes n :: int
  defines "n400 \<equiv> n div 146097"
  defines "r400 \<equiv> n mod 146097"
  defines "n100 \<equiv> min 3 (r400 div 36524)"
  defines "r100 \<equiv> r400 - n100 * 36524"
  defines "n4 \<equiv> r100 div 1461"
  defines "r4 \<equiv> r100 mod 1461"
  defines "n1 \<equiv> min 3 (r4 div 365)"
  defines "doy \<equiv> r4 - n1 * 365"
  defines "y \<equiv> 400 * n400 + 100 * n100 + 4 * n4 + n1 + 1"
  shows "days_before_year y + doy = n" and "0 \<le> doy" and "doy < days_in_year y"
proof -
  have n: "n = 146097 * n400 + r400" unfolding n400_def r400_def by simp
  have r400: "0 \<le> r400" "r400 < 146097" unfolding r400_def by simp_all
  have n100: "0 \<le> n100" "n100 \<le> 3" unfolding n100_def using r400 by simp_all
  define q where "q = r400 div 36524"
  have q: "r400 = 36524 * q + r400 mod 36524" "0 \<le> r400 mod 36524" "r400 mod 36524 < 36524"
    unfolding q_def by simp_all
  have n100_q: "n100 = min 3 q" unfolding n100_def q_def ..
  have r100: "0 \<le> r100" "r100 \<le> 36524" "n100 < 3 \<Longrightarrow> r100 < 36524"
    unfolding r100_def n100_q min_def using r400 q by (simp_all split: if_splits) linarith+
  have r100_eq: "r100 = 1461 * n4 + r4" unfolding n4_def r4_def by simp
  have r4: "0 \<le> r4" "r4 < 1461" unfolding r4_def by simp_all
  have n4: "0 \<le> n4" "n4 \<le> 24" unfolding n4_def using r100 by simp_all
  have n1: "0 \<le> n1" "n1 \<le> 3" unfolding n1_def using r4 by simp_all
  define p where "p = r4 div 365"
  have p: "r4 = 365 * p + r4 mod 365" "0 \<le> r4 mod 365" "r4 mod 365 < 365"
    unfolding p_def by simp_all
  have n1_p: "n1 = min 3 p" unfolding n1_def p_def ..
  have doy: "0 \<le> doy" "doy \<le> 365" "n1 < 3 \<Longrightarrow> doy < 365"
    unfolding doy_def n1_p min_def using r4 p by (simp_all split: if_splits) linarith+
  have y1: "y - 1 = 400 * n400 + 100 * n100 + 4 * n4 + n1" unfolding y_def by simp
  have d4: "(y - 1) div 4 = 100 * n400 + 25 * n100 + n4"
    by (rule int_div_pos_eq [where r = n1]) (use y1 n1 in simp_all)
  have d100: "(y - 1) div 100 = 4 * n400 + n100"
    by (rule int_div_pos_eq [where r = "4 * n4 + n1"]) (use y1 n1 n4 in simp_all)
  have d400: "(y - 1) div 400 = n400"
    by (rule int_div_pos_eq [where r = "100 * n100 + 4 * n4 + n1"]) (use y1 n1 n4 n100 in simp_all)
  have "days_before_year y =
      365 * (y - 1) + (100 * n400 + 25 * n100 + n4) - (4 * n400 + n100) + n400"
    unfolding days_before_year_def d4 d100 d400 ..
  moreover have "r400 = n100 * 36524 + r100" unfolding r100_def by simp
  moreover have "r4 = n1 * 365 + doy" unfolding doy_def by simp
  ultimately show "days_before_year y + doy = n"
    using y1 n r100_eq by simp
  show "0 \<le> doy" by (rule doy)
  show "doy < days_in_year y"
  proof (cases "doy = 365")
    case False
    then show ?thesis using doy unfolding days_in_year_def by simp
  next
    case True
    then have n13: "n1 = 3" using doy n1 by linarith
    then have r4_eq: "r4 = 1460" using True unfolding doy_def by simp
    have y4: "y = 4 * (100 * n400 + 25 * n100 + n4 + 1)" unfolding y_def n13 by simp
    have m4: "y mod 4 = 0" unfolding y4 by simp
    have "is_leap y"
    proof (cases "n4 = 24")
      case c24: True
      then have "r100 = 36524" using r100_eq r4_eq by simp
      then have "n100 = 3" using r100 n100 by linarith
      then have "y = 400 * (n400 + 1)" unfolding y4 c24 by simp
      then have "y mod 400 = 0" by simp
      with m4 show ?thesis unfolding is_leap_def by simp
    next
      case False
      then have n4': "n4 < 24" using n4 by simp
      have "y = 100 * (4 * n400 + n100) + (4 * n4 + 4)" unfolding y4 by simp
      moreover have "0 \<le> 4 * n4 + 4" "4 * n4 + 4 < 100" using n4 n4' by simp_all
      ultimately have "y mod 100 = 4 * n4 + 4" by (rule int_mod_pos_eq)
      then have "y mod 100 \<noteq> 0" using n4 by simp
      with m4 show ?thesis unfolding is_leap_def by simp
    qed
    then show ?thesis using True unfolding days_in_year_def by simp
  qed
qed

lemma days_in_month_pos: "1 \<le> days_in_month y m"
  unfolding days_in_month_def by simp

lemma month_day_from_spec:
  assumes "0 \<le> r" and "r < sum_list (map (days_in_month y) [m .. m + int k])"
  shows "case month_day_from y k m r of (m', d') \<Rightarrow>
           m \<le> m' \<and> m' \<le> m + int k \<and> 1 \<le> d' \<and> d' \<le> days_in_month y m' \<and>
           sum_list (map (days_in_month y) [m .. m' - 1]) + (d' - 1) = r"
  using assms
proof (induction k arbitrary: m r)
  case 0
  then show ?case by simp
next
  case (Suc k)
  show ?case
  proof (cases "r < days_in_month y m")
    case True
    then show ?thesis using Suc.prems by simp
  next
    case False
    have split: "[m .. m + int (Suc k)] = m # [m + 1 .. (m + 1) + int k]"
      by (subst upto_rec1) (simp_all add: add.commute add.left_commute)
    have a: "0 \<le> r - days_in_month y m" using False by simp
    have b: "r - days_in_month y m < sum_list (map (days_in_month y) [m + 1 .. (m + 1) + int k])"
      using Suc.prems(2) unfolding split by simp
    obtain m' d' where md: "month_day_from y k (m + 1) (r - days_in_month y m) = (m', d')"
      by (cases "month_day_from y k (m + 1) (r - days_in_month y m)")
    from Suc.IH [OF a b] md
    have ih: "m + 1 \<le> m'" "m' \<le> m + 1 + int k" "1 \<le> d'" "d' \<le> days_in_month y m'"
      "sum_list (map (days_in_month y) [m + 1 .. m' - 1]) + (d' - 1) = r - days_in_month y m"
      by simp_all
    have "[m .. m' - 1] = m # [m + 1 .. m' - 1]"
      using ih(1) by (subst upto_rec1) simp_all
    then show ?thesis using False md ih by simp
  qed
qed

lemma upto_1_12: "[1 .. 12 :: int] = [1, 2, 3, 4, 5, 6, 7, 8, 9, 10, 11, 12]"
  by (simp add: upto.simps)

lemma year_months: "sum_list (map (days_in_month y) [1 .. 12]) = days_in_year y"
  unfolding upto_1_12 days_in_month_def days_in_year_def by simp

lemma civil_from_days_props:
  assumes "civil_from_days z = (y, m, d)"
  shows "1 \<le> m" "m \<le> 12" "1 \<le> d" "d \<le> days_in_month y m" "days_from_civil y m d = z"
proof -
  define n where "n = z + 719162"
  define r400 where "r400 = n mod 146097"
  define n100 where "n100 = min 3 (r400 div 36524)"
  define r100 where "r100 = r400 - n100 * 36524"
  define r4 where "r4 = r100 mod 1461"
  define n1 where "n1 = min 3 (r4 div 365)"
  define doy where "doy = r4 - n1 * 365"
  define y0 where "y0 = 400 * (n div 146097) + 100 * n100 + 4 * (r100 div 1461) + n1 + 1"
  have ys: "days_before_year y0 + doy = n" "0 \<le> doy" "doy < days_in_year y0"
    unfolding y0_def doy_def n1_def r4_def r100_def n100_def r400_def
    by (rule year_split)+
  have cfd: "civil_from_days z = (case month_day_from y0 11 1 doy of (m, d) \<Rightarrow> (y0, m, d))"
    unfolding civil_from_days_def Let_def y0_def doy_def n1_def r4_def r100_def n100_def r400_def n_def ..
  obtain m0 d0 where md: "month_day_from y0 11 1 doy = (m0, d0)"
    by (cases "month_day_from y0 11 1 doy")
  have eqs: "y = y0" "m = m0" "d = d0" using assms cfd md by simp_all
  have "doy < sum_list (map (days_in_month y0) [1 .. 1 + int 11])"
    using ys(3) year_months [of y0] by simp
  from month_day_from_spec [OF ys(2) this] md
  have sp: "1 \<le> m0" "m0 \<le> 12" "1 \<le> d0" "d0 \<le> days_in_month y0 m0"
    "sum_list (map (days_in_month y0) [1 .. m0 - 1]) + (d0 - 1) = doy"
    by simp_all
  show "1 \<le> m" "m \<le> 12" "1 \<le> d" "d \<le> days_in_month y m"
    using sp unfolding eqs by simp_all
  show "days_from_civil y m d = z"
    unfolding eqs days_from_civil_def days_before_month_def
    using sp(5) ys(1) unfolding n_def by simp
qed

lemma days_before_month_Suc:
  "1 \<le> m \<Longrightarrow> days_before_month y (m + 1) = days_before_month y m + days_in_month y m"
  unfolding days_before_month_def by (subst upto_rec2) simp_all

lemma days_before_month_mono:
  assumes "1 \<le> m" and "m \<le> m'"
  shows "days_before_month y m \<le> days_before_month y m'"
  using assms(2)
proof (induction m' rule: int_ge_induct)
  case base
  show ?case by simp
next
  case (step i)
  have "days_before_month y (i + 1) = days_before_month y i + days_in_month y i"
    using assms(1) step.hyps by (intro days_before_month_Suc) simp
  then show ?case using step.IH days_in_month_pos [of y i] by simp
qed

lemma days_before_month_1: "days_before_month y 1 = 0"
  unfolding days_before_month_def by simp

lemma days_before_month_13: "days_before_month y 13 = days_in_year y"
  unfolding days_before_month_def using year_months [of y] by simp

lemma days_before_year_mono: "y \<le> y' \<Longrightarrow> days_before_year y \<le> days_before_year y'"
proof (induction y' rule: int_ge_induct)
  case base
  show ?case by simp
next
  case (step i)
  have "0 \<le> days_in_year i" unfolding days_in_year_def by simp
  then show ?case using step.IH days_before_year_Suc [of i] by simp
qed

lemma next_month_le:
  assumes "1 \<le> m" "m \<le> 12" "1 \<le> m'" "m' \<le> 12"
    and "y < y' \<or> (y = y' \<and> m < m')"
  shows "days_before_year y + days_before_month y m + days_in_month y m
           \<le> days_before_year y' + days_before_month y' m'"
proof -
  have nxt: "days_before_month y m + days_in_month y m = days_before_month y (m + 1)"
    using assms(1) by (simp add: days_before_month_Suc)
  show ?thesis
  proof (cases "y = y'")
    case True
    then have "m + 1 \<le> m'" using assms(5) by simp
    then have "days_before_month y (m + 1) \<le> days_before_month y m'"
      using assms(1) by (intro days_before_month_mono) simp_all
    then show ?thesis using nxt True by simp
  next
    case False
    then have "y + 1 \<le> y'" using assms(5) by simp
    then have a: "days_before_year (y + 1) \<le> days_before_year y'"
      by (rule days_before_year_mono)
    have "days_before_month y (m + 1) \<le> days_before_month y 13"
      using assms(1,2) by (intro days_before_month_mono) simp_all
    then have b: "days_before_year y + days_before_month y (m + 1) \<le> days_before_year (y + 1)"
      using days_before_year_Suc [of y] days_before_month_13 [of y] by simp
    have "days_before_month y' 1 \<le> days_before_month y' m'"
      using assms(3) by (intro days_before_month_mono) simp_all
    then have c: "0 \<le> days_before_month y' m'" by (simp add: days_before_month_1)
    show ?thesis using a b c nxt by linarith
  qed
qed

lemma days_in_month_ge_28: "28 \<le> days_in_month y m"
  unfolding days_in_month_def by simp

lemma timestamptz_pl_months_ge:
  assumes "0 < n"
  shows "t + 28 * usecs_per_day \<le> timestamptz_pl_months t n"
proof -
  obtain y m d where cfd: "civil_from_days (t div usecs_per_day) = (y, m, d)"
    by (cases "civil_from_days (t div usecs_per_day)")
  note p = civil_from_days_props [OF cfd]
  define k where "k = y * 12 + (m - 1) + n"
  define y' where "y' = k div 12"
  define m' where "m' = k mod 12 + 1"
  define d' where "d' = min d (days_in_month y' m')"
  have res: "timestamptz_pl_months t n = days_from_civil y' m' d' * usecs_per_day + t mod usecs_per_day"
    unfolding timestamptz_pl_months_def cfd Let_def d'_def m'_def y'_def k_def by simp
  have m': "1 \<le> m'" "m' \<le> 12" unfolding m'_def by simp_all
  have k: "k = 12 * y' + (m' - 1)" unfolding y'_def m'_def by simp
  have lt: "12 * y + (m - 1) < 12 * y' + (m' - 1)"
    using assms k unfolding k_def by simp
  have later: "y < y' \<or> (y = y' \<and> m < m')"
    using lt p(1,2) m' by linarith
  have step: "days_before_year y + days_before_month y m + days_in_month y m
          \<le> days_before_year y' + days_before_month y' m'"
    using p(1,2) m' later by (rule next_month_le)
  have "28 \<le> days_in_month y m + d' - d"
    using p(4) days_in_month_ge_28 [of y m] days_in_month_ge_28 [of y' m']
    unfolding d'_def by (simp add: min_def)
  then have "days_from_civil y m d + 28 \<le> days_from_civil y' m' d'"
    unfolding days_from_civil_def using step by linarith
  then have "t div usecs_per_day + 28 \<le> days_from_civil y' m' d'"
    using p(5) by simp
  then have "(t div usecs_per_day + 28) * usecs_per_day \<le> days_from_civil y' m' d' * usecs_per_day"
    by (intro mult_right_mono) (simp_all add: usecs_per_day_def)
  then have "t div usecs_per_day * usecs_per_day + 28 * usecs_per_day
               \<le> days_from_civil y' m' d' * usecs_per_day"
    by (simp add: algebra_simps)
  moreover have "t div usecs_per_day * usecs_per_day + t mod usecs_per_day = t" by simp
  ultimately show ?thesis unfolding res by linarith
qed

lemma timestamptz_pl_months_gt:
  assumes "0 < n"
  shows "t < timestamptz_pl_months t n"
  using timestamptz_pl_months_ge [OF assms, of t] by (simp add: usecs_per_day_def)

lemma days_from_civil_less:
  assumes "1 \<le> m" "m \<le> 12" "1 \<le> m'" "m' \<le> 12" "d \<le> days_in_month y m" "1 \<le> d'"
    and "y < y' \<or> (y = y' \<and> m < m')"
  shows "days_from_civil y m d < days_from_civil y' m' d'"
proof -
  have "days_before_year y + days_before_month y m + days_in_month y m
          \<le> days_before_year y' + days_before_month y' m'"
    using assms(1-4,7) by (rule next_month_le)
  then show ?thesis unfolding days_from_civil_def using assms(5,6) by linarith
qed

lemma civil_from_days_inverse:
  assumes "1 \<le> m" "m \<le> 12" "1 \<le> d" "d \<le> days_in_month y m"
  shows "civil_from_days (days_from_civil y m d) = (y, m, d)"
proof -
  obtain y' m' d' where c: "civil_from_days (days_from_civil y m d) = (y', m', d')"
    by (cases "civil_from_days (days_from_civil y m d)")
  note p = civil_from_days_props [OF c]
  have n1: "\<not> (y < y' \<or> (y = y' \<and> m < m'))"
  proof
    assume "y < y' \<or> (y = y' \<and> m < m')"
    then have "days_from_civil y m d < days_from_civil y' m' d'"
      by (rule days_from_civil_less [OF assms(1,2) p(1,2) assms(4) p(3)])
    then show False using p(5) by simp
  qed
  have n2: "\<not> (y' < y \<or> (y' = y \<and> m' < m))"
  proof
    assume "y' < y \<or> (y' = y \<and> m' < m)"
    then have "days_from_civil y' m' d' < days_from_civil y m d"
      by (rule days_from_civil_less [OF p(1,2) assms(1,2) p(4) assms(3)])
    then show False using p(5) by simp
  qed
  have ym: "y' = y" "m' = m" using n1 n2 by auto
  have "d' = d" using p(5) unfolding ym days_from_civil_def by simp
  with ym c show ?thesis by simp
qed

lemma timestamptz_pl_months_civil:
  fixes n :: int
  assumes "civil_from_days (t div usecs_per_day) = (y, m, d)"
  defines "k \<equiv> y * 12 + (m - 1) + n"
  shows "civil_from_days (timestamptz_pl_months t n div usecs_per_day)
           = (k div 12, k mod 12 + 1, min d (days_in_month (k div 12) (k mod 12 + 1)))"
    and "timestamptz_pl_months t n mod usecs_per_day = t mod usecs_per_day"
proof -
  let ?y = "k div 12" and ?m = "k mod 12 + 1"
  let ?d = "min d (days_in_month ?y ?m)"
  note p = civil_from_days_props [OF assms(1)]
  have res: "timestamptz_pl_months t n = days_from_civil ?y ?m ?d * usecs_per_day + t mod usecs_per_day"
    unfolding timestamptz_pl_months_def assms(1) Let_def k_def by simp
  have pos: "0 < usecs_per_day" by (simp add: usecs_per_day_def)
  have tod: "0 \<le> t mod usecs_per_day" "t mod usecs_per_day < usecs_per_day"
    using pos by simp_all
  have dv: "timestamptz_pl_months t n div usecs_per_day = days_from_civil ?y ?m ?d"
    unfolding res using tod by (simp add: div_pos_pos_trivial)
  show "timestamptz_pl_months t n mod usecs_per_day = t mod usecs_per_day"
    unfolding res by simp
  have "1 \<le> ?d" using p(3) days_in_month_pos [of ?y ?m] by simp
  moreover have "?d \<le> days_in_month ?y ?m" by simp
  moreover have "1 \<le> ?m" "?m \<le> 12" by simp_all
  ultimately show "civil_from_days (timestamptz_pl_months t n div usecs_per_day) = (?y, ?m, ?d)"
    unfolding dv by (intro civil_from_days_inverse)
qed

section \<open>Period ends on the calendar\<close>

lemma instant_at_civil:
  assumes "1 \<le> m" "m \<le> 12" "1 \<le> d" "d \<le> days_in_month y m"
    and "0 \<le> tod" "tod < usecs_per_day"
  shows "civil_from_days (instant_at (y, m, d) tod div usecs_per_day) = (y, m, d)"
    and "instant_at (y, m, d) tod mod usecs_per_day = tod"
proof -
  have "instant_at (y, m, d) tod div usecs_per_day = days_from_civil y m d"
    unfolding instant_at_def using assms(5,6) by (simp add: div_pos_pos_trivial)
  then show "civil_from_days (instant_at (y, m, d) tod div usecs_per_day) = (y, m, d)"
    using assms(1-4) by (simp add: civil_from_days_inverse)
  show "instant_at (y, m, d) tod mod usecs_per_day = tod"
    unfolding instant_at_def using assms(5,6) by (simp add: mod_pos_pos_trivial)
qed

lemma time_of_day_bounds:
  "0 \<le> t mod usecs_per_day" "t mod usecs_per_day < usecs_per_day"
  by (simp_all add: usecs_per_day_def)

lemma months_later:
  assumes "civil_from_days (t div usecs_per_day) = (y, m, d)"
  shows "timestamptz_pl_months t 1 = instant_at (one_month_later (y, m, d)) (t mod usecs_per_day)"
    and "timestamptz_pl_months t 6 = instant_at (six_months_later (y, m, d)) (t mod usecs_per_day)"
    and "timestamptz_pl_months t 12 = instant_at (one_year_later (y, m, d)) (t mod usecs_per_day)"
proof -
  note p = civil_from_days_props [OF assms]
  have d31: "d \<le> 31" using p(4) unfolding days_in_month_def by (simp split: if_splits)
  have k1: "(y * 12 + (m - 1) + 1) div 12 = (if m = 12 then y + 1 else y)"
    "(y * 12 + (m - 1) + 1) mod 12 + 1 = (if m = 12 then 1 else m + 1)"
  proof -
    have a: "y * 12 + (m - 1) + 1 = 12 * (if m = 12 then y + 1 else y) + (if m = 12 then 0 else m)"
      by simp
    have b: "0 \<le> (if m = 12 then 0 else m)" "(if m = 12 then 0 else m) < 12"
      using p(1,2) by auto
    show "(y * 12 + (m - 1) + 1) div 12 = (if m = 12 then y + 1 else y)"
      using a b by (rule int_div_pos_eq)
    have "(y * 12 + (m - 1) + 1) mod 12 = (if m = 12 then 0 else m)"
      using a b by (rule int_mod_pos_eq)
    then show "(y * 12 + (m - 1) + 1) mod 12 + 1 = (if m = 12 then 1 else m + 1)"
      by simp
  qed
  have k6: "(y * 12 + (m - 1) + 6) div 12 = (if 6 < m then y + 1 else y)"
    "(y * 12 + (m - 1) + 6) mod 12 + 1 = (if 6 < m then m - 6 else m + 6)"
  proof -
    have a: "y * 12 + (m - 1) + 6 = 12 * (if 6 < m then y + 1 else y) + (if 6 < m then m - 7 else m + 5)"
      by simp
    have b: "0 \<le> (if 6 < m then m - 7 else m + 5)" "(if 6 < m then m - 7 else m + 5) < 12"
      using p(1,2) by auto
    show "(y * 12 + (m - 1) + 6) div 12 = (if 6 < m then y + 1 else y)"
      using a b by (rule int_div_pos_eq)
    have "(y * 12 + (m - 1) + 6) mod 12 = (if 6 < m then m - 7 else m + 5)"
      using a b by (rule int_mod_pos_eq)
    then show "(y * 12 + (m - 1) + 6) mod 12 + 1 = (if 6 < m then m - 6 else m + 6)"
      by simp
  qed
  have k12: "(y * 12 + (m - 1) + 12) div 12 = y + 1" "(y * 12 + (m - 1) + 12) mod 12 + 1 = m"
  proof -
    have a: "y * 12 + (m - 1) + 12 = 12 * (y + 1) + (m - 1)" by simp
    have b: "0 \<le> m - 1" "m - 1 < 12" using p(1,2) by auto
    show "(y * 12 + (m - 1) + 12) div 12 = y + 1" using a b by (rule int_div_pos_eq)
    have "(y * 12 + (m - 1) + 12) mod 12 = m - 1" using a b by (rule int_mod_pos_eq)
    then show "(y * 12 + (m - 1) + 12) mod 12 + 1 = m" by simp
  qed
  have r: "timestamptz_pl_months t n =
      days_from_civil ((y * 12 + (m - 1) + n) div 12) ((y * 12 + (m - 1) + n) mod 12 + 1)
        (min d (days_in_month ((y * 12 + (m - 1) + n) div 12) ((y * 12 + (m - 1) + n) mod 12 + 1)))
        * usecs_per_day + t mod usecs_per_day" for n
    unfolding timestamptz_pl_months_def assms Let_def by simp
  show "timestamptz_pl_months t 1 = instant_at (one_month_later (y, m, d)) (t mod usecs_per_day)"
    unfolding r k1 one_month_later_def instant_at_def using d31
    by (simp add: days_in_month_def)
  show "timestamptz_pl_months t 6 = instant_at (six_months_later (y, m, d)) (t mod usecs_per_day)"
    unfolding r k6 six_months_later_def instant_at_def by simp
  show "timestamptz_pl_months t 12 = instant_at (one_year_later (y, m, d)) (t mod usecs_per_day)"
    unfolding r k12 one_year_later_def instant_at_def by simp
qed

lemma later_dates_valid:
  assumes "1 \<le> m" "m \<le> 12" "1 \<le> d" "d \<le> days_in_month y m"
  shows "case one_month_later (y, m, d) of (y', m', d') \<Rightarrow>
           1 \<le> m' \<and> m' \<le> 12 \<and> 1 \<le> d' \<and> d' \<le> days_in_month y' m'"
    and "case six_months_later (y, m, d) of (y', m', d') \<Rightarrow>
           1 \<le> m' \<and> m' \<le> 12 \<and> 1 \<le> d' \<and> d' \<le> days_in_month y' m'"
    and "case one_year_later (y, m, d) of (y', m', d') \<Rightarrow>
           1 \<le> m' \<and> m' \<le> 12 \<and> 1 \<le> d' \<and> d' \<le> days_in_month y' m'"
proof -
  have d31: "d \<le> 31" using assms(4) unfolding days_in_month_def by (simp split: if_splits)
  show "case one_month_later (y, m, d) of (y', m', d') \<Rightarrow>
           1 \<le> m' \<and> m' \<le> 12 \<and> 1 \<le> d' \<and> d' \<le> days_in_month y' m'"
    using assms d31 days_in_month_pos [of y "m + 1"]
    unfolding one_month_later_def by (simp add: days_in_month_def)
  show "case six_months_later (y, m, d) of (y', m', d') \<Rightarrow>
           1 \<le> m' \<and> m' \<le> 12 \<and> 1 \<le> d' \<and> d' \<le> days_in_month y' m'"
    using assms days_in_month_pos [of y "m + 6"] days_in_month_pos [of "y + 1" "m - 6"]
    unfolding six_months_later_def by simp
  show "case one_year_later (y, m, d) of (y', m', d') \<Rightarrow>
           1 \<le> m' \<and> m' \<le> 12 \<and> 1 \<le> d' \<and> d' \<le> days_in_month y' m'"
    using assms days_in_month_pos [of "y + 1" m]
    unfolding one_year_later_def by simp
qed

lemma instant_at_later:
  assumes "civil_from_days (t div usecs_per_day) = date"
  shows "civil_from_days (instant_at (one_month_later date) (t mod usecs_per_day) div usecs_per_day)
           = one_month_later date"
    and "civil_from_days (instant_at (six_months_later date) (t mod usecs_per_day) div usecs_per_day)
           = six_months_later date"
    and "civil_from_days (instant_at (one_year_later date) (t mod usecs_per_day) div usecs_per_day)
           = one_year_later date"
    and "instant_at (one_month_later date) (t mod usecs_per_day) mod usecs_per_day = t mod usecs_per_day"
    and "instant_at (six_months_later date) (t mod usecs_per_day) mod usecs_per_day = t mod usecs_per_day"
    and "instant_at (one_year_later date) (t mod usecs_per_day) mod usecs_per_day = t mod usecs_per_day"
proof -
  obtain y m d where date: "date = (y, m, d)" by (cases date)
  note p = civil_from_days_props [OF assms [unfolded date]]
  note v = later_dates_valid [OF p(1-4)]
  note tod = time_of_day_bounds [of t]
  obtain y1 m1 d1 where l1: "one_month_later (y, m, d) = (y1, m1, d1)"
    by (cases "one_month_later (y, m, d)")
  obtain y6 m6 d6 where l6: "six_months_later (y, m, d) = (y6, m6, d6)"
    by (cases "six_months_later (y, m, d)")
  obtain y12 m12 d12 where l12: "one_year_later (y, m, d) = (y12, m12, d12)"
    by (cases "one_year_later (y, m, d)")
  have v1: "1 \<le> m1" "m1 \<le> 12" "1 \<le> d1" "d1 \<le> days_in_month y1 m1"
    using v(1) unfolding l1 by simp_all
  have v6: "1 \<le> m6" "m6 \<le> 12" "1 \<le> d6" "d6 \<le> days_in_month y6 m6"
    using v(2) unfolding l6 by simp_all
  have v12: "1 \<le> m12" "m12 \<le> 12" "1 \<le> d12" "d12 \<le> days_in_month y12 m12"
    using v(3) unfolding l12 by simp_all
  show "civil_from_days (instant_at (one_month_later date) (t mod usecs_per_day) div usecs_per_day)
           = one_month_later date"
    unfolding date l1 by (rule instant_at_civil(1) [OF v1 tod])
  show "civil_from_days (instant_at (six_months_later date) (t mod usecs_per_day) div usecs_per_day)
           = six_months_later date"
    unfolding date l6 by (rule instant_at_civil(1) [OF v6 tod])
  show "civil_from_days (instant_at (one_year_later date) (t mod usecs_per_day) div usecs_per_day)
           = one_year_later date"
    unfolding date l12 by (rule instant_at_civil(1) [OF v12 tod])
  show "instant_at (one_month_later date) (t mod usecs_per_day) mod usecs_per_day = t mod usecs_per_day"
    unfolding date l1 by (rule instant_at_civil(2) [OF v1 tod])
  show "instant_at (six_months_later date) (t mod usecs_per_day) mod usecs_per_day = t mod usecs_per_day"
    unfolding date l6 by (rule instant_at_civil(2) [OF v6 tod])
  show "instant_at (one_year_later date) (t mod usecs_per_day) mod usecs_per_day = t mod usecs_per_day"
    unfolding date l12 by (rule instant_at_civil(2) [OF v12 tod])
qed

section \<open>Writes and selections\<close>

lemma for_each_row_Inr:
  "for_each_row f xs = Inr ys \<longleftrightarrow> list_all2 (\<lambda>x y. f x = Inr y) xs ys"
proof (induction xs arbitrary: ys)
  case Nil
  then show ?case by auto
next
  case (Cons x xs)
  show ?case
  proof (cases "f x")
    case (Inl e)
    then show ?thesis by (auto simp: list_all2_Cons1)
  next
    case (Inr y)
    then show ?thesis
      using Cons.IH by (cases "for_each_row f xs") (auto simp: list_all2_Cons1)
  qed
qed

lemma for_each_row_map:
  "(\<And>x. x \<in> set xs \<Longrightarrow> f x = Inr (g x)) \<Longrightarrow> for_each_row f xs = Inr (map g xs)"
  by (induction xs) simp_all

lemma sql_update_Inr:
  "sql_update now wh set_cols tbl = Inr tbl' \<longleftrightarrow>
     list_all2 (\<lambda>r r'. (if wh r then update_billing_period_text now (set_cols r) else Inr r) = Inr r')
       tbl tbl'"
  unfolding sql_update_def by (rule for_each_row_Inr)

lemma sql_update_length:
  "sql_update now wh set_cols tbl = Inr tbl' \<Longrightarrow> length tbl' = length tbl"
  by (auto simp: sql_update_Inr dest: list_all2_lengthD)

lemma sql_update_nth:
  assumes "sql_update now wh set_cols tbl = Inr tbl'" and "i < length tbl"
  shows "(if wh (tbl ! i) then update_billing_period_text now (set_cols (tbl ! i)) else Inr (tbl ! i))
           = Inr (tbl' ! i)"
  using assms by (auto simp: sql_update_Inr dest: list_all2_nthD)

lemma in_sql_update:
  assumes "sql_update now wh set_cols tbl = Inr tbl'" and "r' \<in> set tbl'"
  obtains r where "r \<in> set tbl" "wh r" "update_billing_period_text now (set_cols r) = Inr r'"
    | "r' \<in> set tbl" "\<not> wh r'"
proof -
  from assms(2) obtain i where i: "i < length tbl'" "tbl' ! i = r'"
    by (auto simp: in_set_conv_nth)
  then have il: "i < length tbl" using sql_update_length [OF assms(1)] by simp
  from sql_update_nth [OF assms(1) il] i(2) il that show ?thesis
    by (cases "wh (tbl ! i)") (auto simp: in_set_conv_nth)
qed

lemma trigger_Inr:
  assumes "update_billing_period_text now r = Inr r'"
  obtains accurate where
    "validate_billing_period_accuracy (current_period_start r) (current_period_end r) (plan_type r)
       = Inr accurate"
    "r' = r\<lparr>billing_period_text :=
               Some (generate_billing_period_text now
                       (current_period_start r) (current_period_end r) (plan_type r)),
             billing_period_accurate := Some accurate\<rparr>"
  using assms unfolding update_billing_period_text_def by (auto split: sum.splits)

lemma trigger_keeps:
  assumes "update_billing_period_text now r = Inr r'"
  shows "id_col r' = id_col r" "user_id r' = user_id r" "plan_type r' = plan_type r"
    "status r' = status r" "stripe_subscription_id r' = stripe_subscription_id r"
    "stripe_customer_id r' = stripe_customer_id r"
    "current_period_start r' = current_period_start r"
    "current_period_end r' = current_period_end r"
    "created_at r' = created_at r" "updated_at r' = updated_at r"
  using assms by (auto elim!: trigger_Inr)

lemma trigger_consistent:
  "update_billing_period_text now r = Inr r' \<Longrightarrow> derived_consistent now r'"
  by (erule trigger_Inr) (simp add: derived_consistent_def)

lemma trigger_raises:
  "update_billing_period_text now r = Inl e \<Longrightarrow> e = Timestamp_out_of_range"
  unfolding update_billing_period_text_def validate_billing_period_accuracy_def
    calculate_subscription_period_end_def check_timestamp_def
  by (auto split: sum.splits subscription_plan_type.splits if_splits)

lemma trigger_same_period:
  assumes "current_period_start r2 = current_period_start r1"
    and "current_period_end r2 = current_period_end r1" and "plan_type r2 = plan_type r1"
    and "update_billing_period_text t1 r1 = Inr r1'"
  obtains r2' where "update_billing_period_text t2 r2 = Inr r2'"
  using assms unfolding update_billing_period_text_def by (auto split: sum.splits)

lemma select_by_user_Some:
  "select_by_user u tbl = Some v \<Longrightarrow> v \<in> set tbl \<and> user_id v = u"
  unfolding select_by_user_def by (auto simp: find_Some_iff)

lemma select_by_user_None:
  "select_by_user u tbl = None \<longleftrightarrow> (\<forall>r \<in> set tbl. user_id r \<noteq> u)"
  unfolding select_by_user_def by (auto simp: find_None_iff)

lemma select_by_user_ex:
  assumes "\<exists>r \<in> set tbl. user_id r = u"
  obtains found where "select_by_user u tbl = Some found"
  using assms select_by_user_None [of u tbl] by (cases "select_by_user u tbl") auto

lemma select_by_user_only:
  assumes "filter (\<lambda>r. user_id r = u) tbl = [v]"
  shows "select_by_user u tbl = Some v"
  using assms unfolding select_by_user_def
  by (induction tbl) (auto split: if_splits simp: filter_empty_conv find_None_iff)

section \<open>Calculated period ends\<close>

lemma check_timestamp_Inr: "check_timestamp t = Inr e \<longleftrightarrow> e = t \<and> is_valid_timestamp t"
  unfolding check_timestamp_def by auto

lemma calculate_subscription_period_end_ge:
  assumes "calculate_subscription_period_end plan period_start = Inr e"
  shows "period_start + 28 * usecs_per_day \<le> e"
proof (cases plan)
  case Monthly
  then show ?thesis
    using assms timestamptz_pl_months_ge [of 1 period_start]
    by (simp add: calculate_subscription_period_end_def check_timestamp_Inr)
next
  case Semiannual
  then show ?thesis
    using assms timestamptz_pl_months_ge [of 6 period_start]
    by (simp add: calculate_subscription_period_end_def check_timestamp_Inr)
next
  case Annual
  then show ?thesis
    using assms timestamptz_pl_months_ge [of 12 period_start]
    by (simp add: calculate_subscription_period_end_def check_timestamp_Inr)
next
  case Trial
  then show ?thesis
    using assms
    by (simp add: calculate_subscription_period_end_def check_timestamp_Inr
          timestamptz_pl_days_def usecs_per_day_def)
next
  case Unlisted_plan
  then show ?thesis
    using assms
    by (simp add: calculate_subscription_period_end_def check_timestamp_Inr
          timestamptz_pl_days_def usecs_per_day_def)
qed

lemma calculate_subscription_period_end_gt:
  "calculate_subscription_period_end plan period_start = Inr e \<Longrightarrow> period_start < e"
  using calculate_subscription_period_end_ge [of plan period_start e]
  by (simp add: usecs_per_day_def)

lemma extract_day_max: "max 0 (extract_day dt) = max 0 (dt div usecs_per_day)"
proof (cases "dt < 0")
  case True
  have "0 \<le> (- dt) div usecs_per_day"
    using True by (simp add: usecs_per_day_def pos_imp_zdiv_nonneg_iff)
  moreover have "dt div usecs_per_day < 0"
    using True by (simp add: usecs_per_day_def div_neg_pos_less0)
  ultimately show ?thesis using True by (simp add: extract_day_def)
next
  case False
  then show ?thesis by (simp add: extract_day_def)
qed

lemma extract_day_ge:
  assumes "k * usecs_per_day \<le> dt" and "0 \<le> k"
  shows "k \<le> extract_day dt"
proof -
  have pos: "0 < usecs_per_day" by (simp add: usecs_per_day_def)
  have "0 \<le> dt" using assms pos by (meson mult_nonneg_nonneg order_trans less_imp_le)
  moreover have "(k * usecs_per_day) div usecs_per_day \<le> dt div usecs_per_day"
    using assms(1) pos by (rule zdiv_mono1)
  then have "k \<le> dt div usecs_per_day" using pos by simp
  ultimately show ?thesis by (simp add: extract_day_def)
qed

lemma extract_day_nonpos: "dt \<le> 0 \<Longrightarrow> extract_day dt \<le> 0"
  by (simp add: extract_day_def usecs_per_day_def pos_imp_zdiv_nonneg_iff)

lemma validate_billing_period_accuracy_ordered:
  assumes "validate_billing_period_accuracy period_start period_end plan = Inr True"
  shows "period_start < period_end"
proof (rule ccontr)
  assume "\<not> period_start < period_end"
  then have a: "extract_day (period_end - period_start) \<le> 0"
    by (intro extract_day_nonpos) simp
  from assms obtain e where e: "calculate_subscription_period_end plan period_start = Inr e"
    and v: "\<bar>extract_day (period_end - period_start) - extract_day (e - period_start)\<bar> \<le> 2"
    unfolding validate_billing_period_accuracy_def by (auto split: sum.splits simp: Let_def)
  have "28 \<le> extract_day (e - period_start)"
    using calculate_subscription_period_end_ge [OF e]
    by (intro extract_day_ge) simp_all
  with a v show False by simp
qed

section \<open>The three procedures that write\<close>

lemma webhook_cases:
  assumes "handle_subscription_webhook now new_id u plan p_status sid cid p_start p_end tbl
             = Inr (record, tbl')"
  obtains (updated) found st set_cols cend where
      "(case p_end of
          None \<Rightarrow> calculate_subscription_period_end plan (case p_start of Some s \<Rightarrow> s | None \<Rightarrow> now)
        | Some e \<Rightarrow> Inr e) = Inr cend"
      "select_by_user u tbl = Some found" "subscription_status_in p_status = Some st"
      "set_cols = (\<lambda>r. r\<lparr>plan_type := plan, status := st,
          stripe_subscription_id := coalesce sid (stripe_subscription_id r),
          stripe_customer_id := coalesce cid (stripe_customer_id r),
          current_period_start := (case p_start of Some s \<Rightarrow> s | None \<Rightarrow> now),
          current_period_end := cend,
          updated_at := now\<rparr>)"
      "sql_update now (\<lambda>r. user_id r = u) set_cols tbl = Inr tbl'"
      "filter (\<lambda>r. user_id r = u) tbl' = [record]"
  | (inserted) st cend where
      "(case p_end of
          None \<Rightarrow> calculate_subscription_period_end plan (case p_start of Some s \<Rightarrow> s | None \<Rightarrow> now)
        | Some e \<Rightarrow> Inr e) = Inr cend"
      "select_by_user u tbl = None" "subscription_status_in p_status = Some st"
      "update_billing_period_text now
         (new_subscription now new_id u plan st sid cid
            (case p_start of Some s \<Rightarrow> s | None \<Rightarrow> now) cend) = Inr record"
      "tbl' = tbl @ [record]"
proof (cases "select_by_user u tbl")
  case None
  with assms inserted show ?thesis
    unfolding handle_subscription_webhook_def Let_def
    by (auto split: sum.splits option.splits)
next
  case (Some found)
  with assms updated show ?thesis
    unfolding handle_subscription_webhook_def Let_def
    by (auto split: sum.splits option.splits list.splits)
qed

lemma new_subscription_simps [simp]:
  "user_id (new_subscription now new_id u plan st sid cid s e) = u"
  "current_period_start (new_subscription now new_id u plan st sid cid s e) = s"
  "current_period_end (new_subscription now new_id u plan st sid cid s e) = e"
  "plan_type (new_subscription now new_id u plan st sid cid s e) = plan"
  "status (new_subscription now new_id u plan st sid cid s e) = st"
  "stripe_subscription_id (new_subscription now new_id u plan st sid cid s e) = sid"
  "stripe_customer_id (new_subscription now new_id u plan st sid cid s e) = cid"
  by (simp_all add: new_subscription_def)

lemma sql_update_consistent:
  assumes "sql_update now (\<lambda>r. user_id r = u) set_cols tbl = Inr tbl'"
    and "\<And>r. user_id (set_cols r) = user_id r"
  shows "\<forall>r \<in> set tbl'. user_id r = u \<longrightarrow> derived_consistent now r"
proof (intro ballI impI)
  fix r' assume "r' \<in> set tbl'" and u: "user_id r' = u"
  with assms(1) show "derived_consistent now r'"
    by (elim in_sql_update) (auto simp: trigger_consistent)
qed

lemma webhook_consistent:
  assumes "handle_subscription_webhook now new_id u plan p_status sid cid p_start p_end tbl
             = Inr (record, tbl')"
  shows "derived_consistent now record \<and> (\<forall>r \<in> set tbl'. user_id r = u \<longrightarrow> derived_consistent now r)"
  using assms
proof (cases rule: webhook_cases)
  case (updated found st set_cols cend)
  have all: "\<forall>r \<in> set tbl'. user_id r = u \<longrightarrow> derived_consistent now r"
    using updated(5) by (rule sql_update_consistent) (simp add: updated(4))
  have "record \<in> set (filter (\<lambda>r. user_id r = u) tbl')" unfolding updated(6) by simp
  then have "record \<in> set tbl'" "user_id record = u" by simp_all
  with all show ?thesis by blast
next
  case (inserted st cend)
  have "\<forall>r \<in> set tbl. user_id r \<noteq> u"
    using inserted(2) by (simp add: select_by_user_None)
  then show ?thesis
    unfolding inserted(5) using trigger_consistent [OF inserted(4)] by auto
qed

lemma cancel_Inr:
  assumes "cancel_subscription_safe now u reason tbl = Inr tbl'"
  shows "sql_update now (\<lambda>r. user_id r = u) (\<lambda>r. r\<lparr>status := Cancelled, updated_at := now\<rparr>) tbl
           = Inr tbl'"
  using assms by (auto simp: cancel_subscription_safe_def split: option.splits if_splits)

lemma reactivate_Inr:
  assumes "reactivate_subscription now u pm tbl = Inr tbl'"
  shows "sql_update now (\<lambda>r. user_id r = u) (\<lambda>r. r\<lparr>status := Active, updated_at := now\<rparr>) tbl
           = Inr tbl'"
  using assms by (auto simp: reactivate_subscription_def split: option.splits if_splits)

lemma cancel_consistent:
  assumes "cancel_subscription_safe now u reason tbl = Inr tbl'"
  shows "\<forall>r \<in> set tbl'. user_id r = u \<longrightarrow> derived_consistent now r"
  using cancel_Inr [OF assms] by (rule sql_update_consistent) simp

lemma reactivate_consistent:
  assumes "reactivate_subscription now u pm tbl = Inr tbl'"
  shows "\<forall>r \<in> set tbl'. user_id r = u \<longrightarrow> derived_consistent now r"
  using reactivate_Inr [OF assms] by (rule sql_update_consistent) simp

lemma sql_update_period_ordered:
  assumes "sql_update now wh set_cols tbl = Inr tbl'"
    and "\<forall>r \<in> set tbl. period_ordered r"
    and "\<And>r. r \<in> set tbl \<Longrightarrow> wh r \<Longrightarrow> period_ordered (set_cols r)"
  shows "\<forall>r \<in> set tbl'. period_ordered r"
proof
  fix r' assume "r' \<in> set tbl'"
  with assms(1) show "period_ordered r'"
  proof (cases rule: in_sql_update)
    case (1 r)
    then show ?thesis
      using assms(3) [OF 1(1,2)] trigger_keeps(7,8) [OF 1(3)] by (simp add: period_ordered_def)
  next
    case 2
    then show ?thesis using assms(2) by simp
  qed
qed

lemma webhook_period_ordered:
  assumes "handle_subscription_webhook now new_id u plan p_status sid cid p_start p_end tbl
             = Inr (record, tbl')"
    and "\<forall>r \<in> set tbl. period_ordered r"
    and "case p_end of None \<Rightarrow> True | Some e \<Rightarrow> (case p_start of None \<Rightarrow> now | Some s \<Rightarrow> s) < e"
  shows "period_ordered record \<and> (\<forall>r \<in> set tbl'. period_ordered r)"
proof -
  define s where "s = (case p_start of Some s \<Rightarrow> s | None \<Rightarrow> now)"
  have se: "s < cend"
    if "(case p_end of None \<Rightarrow> calculate_subscription_period_end plan s | Some e \<Rightarrow> Inr e) = Inr cend"
    for cend
    using that assms(3) calculate_subscription_period_end_gt [of plan s cend]
    unfolding s_def by (auto split: option.splits)
  from assms(1) show ?thesis
  proof (cases rule: webhook_cases)
    case (updated found st set_cols cend)
    have "s < cend" using updated(1) unfolding s_def [symmetric] by (rule se)
    then have w: "period_ordered (set_cols r)" for r
      unfolding updated(4) period_ordered_def s_def by simp
    have all: "\<forall>r \<in> set tbl'. period_ordered r"
      using updated(5) assms(2) w by (rule sql_update_period_ordered)
    have "record \<in> set (filter (\<lambda>r. user_id r = u) tbl')" unfolding updated(6) by simp
    then have "record \<in> set tbl'" by simp
    with all show ?thesis by blast
  next
    case (inserted st cend)
    have "s < cend" using inserted(1) unfolding s_def [symmetric] by (rule se)
    then have "period_ordered record"
      using trigger_keeps(7,8) [OF inserted(4)] unfolding period_ordered_def s_def by simp
    then show ?thesis unfolding inserted(5) using assms(2) by simp
  qed
qed

lemma cancel_period_ordered:
  assumes "cancel_subscription_safe now u reason tbl = Inr tbl'"
    and "\<forall>r \<in> set tbl. period_ordered r"
  shows "\<forall>r \<in> set tbl'. period_ordered r"
  using cancel_Inr [OF assms(1)] assms(2)
  by (rule sql_update_period_ordered) (use assms(2) in \<open>simp add: period_ordered_def\<close>)

lemma reactivate_period_ordered:
  assumes "reactivate_subscription now u pm tbl = Inr tbl'"
    and "\<forall>r \<in> set tbl. period_ordered r"
  shows "\<forall>r \<in> set tbl'. period_ordered r"
  using reactivate_Inr [OF assms(1)] assms(2)
  by (rule sql_update_period_ordered) (use assms(2) in \<open>simp add: period_ordered_def\<close>)

section \<open>Calling the webhook handler again\<close>

text \<open>
  A row the trigger has written, rewritten with the same plan, status, references and
  period, changes in \<^verbatim>\<open>updated_at\<close> only, as long as the period end is over at both
  instants or at neither.
\<close>

lemma generate_billing_period_text_same_expiry:
  "(e \<le> t1) = (e \<le> t2) \<Longrightarrow>
     generate_billing_period_text t1 s e plan = generate_billing_period_text t2 s e plan"
  by (simp add: generate_billing_period_text_def)

lemma coalesce_idem [simp]: "coalesce a (coalesce a b) = coalesce a b"
  by (simp add: coalesce_def split: option.splits)

lemma coalesce_same [simp]: "coalesce a a = a"
  by (simp add: coalesce_def split: option.splits)

lemma rewrite_same:
  assumes "(e \<le> t1) = (e \<le> t2)"
    and "update_billing_period_text t1 r0 = Inr r"
    and "plan_type r0 = plan" "status r0 = st"
    and "coalesce sid (stripe_subscription_id r0) = stripe_subscription_id r0"
    and "coalesce cid (stripe_customer_id r0) = stripe_customer_id r0"
    and "current_period_start r0 = s" "current_period_end r0 = e"
  shows "update_billing_period_text t2
           (r\<lparr>plan_type := plan, status := st,
              stripe_subscription_id := coalesce sid (stripe_subscription_id r),
              stripe_customer_id := coalesce cid (stripe_customer_id r),
              current_period_start := s, current_period_end := e, updated_at := t2\<rparr>)
         = Inr (r\<lparr>updated_at := t2\<rparr>)"
proof -
  from assms(2) obtain accurate where
    v: "validate_billing_period_accuracy (current_period_start r0) (current_period_end r0)
          (plan_type r0) = Inr accurate"
    and r: "r = r0\<lparr>billing_period_text :=
               Some (generate_billing_period_text t1
                       (current_period_start r0) (current_period_end r0) (plan_type r0)),
             billing_period_accurate := Some accurate\<rparr>"
    by (rule trigger_Inr)
  show ?thesis
    using assms(3-) v generate_billing_period_text_same_expiry [OF assms(1), of s plan]
    unfolding r update_billing_period_text_def
    by (cases r0) simp
qed

lemma webhook_second_call:
  assumes one: "filter (\<lambda>r. user_id r = u) tbl1 = [r1]"
    and st: "subscription_status_in p_status = Some st"
    and cend: "(case p_end of None \<Rightarrow> calculate_subscription_period_end plan ps | Some e \<Rightarrow> Inr e)
                 = Inr cend"
    and same: "\<And>r. r \<in> set tbl1 \<Longrightarrow> user_id r = u \<Longrightarrow>
      update_billing_period_text t2
           (r\<lparr>plan_type := plan, status := st,
              stripe_subscription_id := coalesce sid (stripe_subscription_id r),
              stripe_customer_id := coalesce cid (stripe_customer_id r),
              current_period_start := ps, current_period_end := cend, updated_at := t2\<rparr>)
         = Inr (r\<lparr>updated_at := t2\<rparr>)"
  shows "\<exists>r2 tbl2.
           handle_subscription_webhook t2 id2 u plan p_status sid cid (Some ps) p_end tbl1
             = Inr (r2, tbl2) \<and>
           map without_updated_at tbl2 = map without_updated_at tbl1 \<and>
           without_updated_at r2 = without_updated_at r1"
proof -
  let ?P = "\<lambda>r. user_id r = u"
  let ?set = "\<lambda>r. r\<lparr>plan_type := plan, status := st,
              stripe_subscription_id := coalesce sid (stripe_subscription_id r),
              stripe_customer_id := coalesce cid (stripe_customer_id r),
              current_period_start := ps, current_period_end := cend, updated_at := t2\<rparr>"
  let ?g = "\<lambda>r. if ?P r then r\<lparr>updated_at := t2\<rparr> else r"
  have sel: "select_by_user u tbl1 = Some r1" using one by (rule select_by_user_only)
  have upd: "sql_update t2 ?P ?set tbl1 = Inr (map ?g tbl1)"
    unfolding sql_update_def by (rule for_each_row_map) (simp add: same)
  have "filter ?P (map ?g tbl1) = map ?g (filter ?P tbl1)"
    by (induction tbl1) simp_all
  then have flt: "filter ?P (map ?g tbl1) = [?g r1]" unfolding one by simp
  have call: "handle_subscription_webhook t2 id2 u plan p_status sid cid (Some ps) p_end tbl1
                = Inr (?g r1, map ?g tbl1)"
    using cend unfolding handle_subscription_webhook_def Let_def
    by (cases p_end) (simp_all add: sel st upd flt)
  have "map without_updated_at (map ?g tbl1) = map without_updated_at tbl1"
    by (simp add: without_updated_at_def)
  moreover have "without_updated_at (?g r1) = without_updated_at r1"
    by (simp add: without_updated_at_def)
  ultimately show ?thesis using call by blast
qed

section \<open>A user with a single row\<close>

text \<open>
  When the table holds exactly one row of the user, the row the procedures select is the
  user's current subscription, and the webhook handler's \<^verbatim>\<open>UPDATE\<close> returns one row. The
  hypothesis on the calculated period end says that the trigger's accuracy check stays
  within the engine's range.
\<close>

lemma trigger_ok:
  assumes "calculate_subscription_period_end (plan_type r) (current_period_start r) = Inr ce"
  shows "\<exists>r'. update_billing_period_text now r = Inr r'"
  unfolding update_billing_period_text_def validate_billing_period_accuracy_def
  using assms by (simp add: Let_def)

lemma sql_update_ok:
  assumes "\<And>r. r \<in> set tbl \<Longrightarrow> wh r \<Longrightarrow> \<exists>r'. update_billing_period_text now (set_cols r) = Inr r'"
  shows "\<exists>tbl'. sql_update now wh set_cols tbl = Inr tbl'"
  using assms
proof (induction tbl)
  case Nil
  then show ?case by (simp add: sql_update_def)
next
  case (Cons a tbl)
  from Cons.IH Cons.prems obtain tbl' where t: "sql_update now wh set_cols tbl = Inr tbl'"
    by auto
  show ?case
  proof (cases "wh a")
    case True
    with Cons.prems [of a] obtain a' where "update_billing_period_text now (set_cols a) = Inr a'"
      by auto
    with True t show ?thesis by (simp add: sql_update_def)
  next
    case False
    with t show ?thesis by (simp add: sql_update_def)
  qed
qed

lemma list_all2_filter_length:
  assumes "list_all2 R xs ys" and "\<And>x y. R x y \<Longrightarrow> P x = P y"
  shows "length (filter P xs) = length (filter P ys)"
  using assms by (induction rule: list_all2_induct) auto

lemma sql_update_filter_length:
  assumes "sql_update now wh set_cols tbl = Inr tbl'"
    and "\<And>r. user_id (set_cols r) = user_id r"
  shows "length (filter (\<lambda>r. user_id r = u) tbl') = length (filter (\<lambda>r. user_id r = u) tbl)"
proof -
  have "length (filter (\<lambda>r. user_id r = u) tbl) = length (filter (\<lambda>r. user_id r = u) tbl')"
    using assms(1) [unfolded sql_update_Inr]
  proof (rule list_all2_filter_length)
    fix r r'
    assume "(if wh r then update_billing_period_text now (set_cols r) else Inr r) = Inr r'"
    then have "user_id r' = user_id r"
      using assms(2) by (cases "wh r") (auto dest: trigger_keeps(2))
    then show "(user_id r = u) = (user_id r' = u)" by simp
  qed
  then show ?thesis by simp
qed

lemma only_row:
  assumes "filter P tbl = [v]" and "r \<in> set tbl" and "P r"
  shows "r = v"
proof -
  have "r \<in> set (filter P tbl)" using assms(2,3) by simp
  then show ?thesis unfolding assms(1) by simp
qed

lemma webhook_update_one_row:
  assumes one: "filter (\<lambda>r. user_id r = u) tbl = [v]"
    and st: "subscription_status_in p_status = Some st"
    and ce: "calculate_subscription_period_end plan (case p_start of Some s \<Rightarrow> s | None \<Rightarrow> now)
               = Inr ce"
  shows "\<exists>record tbl'.
           handle_subscription_webhook now new_id u plan p_status sid cid p_start p_end tbl
             = Inr (record, tbl') \<and>
           length tbl' = length tbl \<and>
           (\<forall>i < length tbl.
              if user_id (tbl ! i) = u
              then tbl' ! i = record \<and>
                   stripe_subscription_id record =
                     (case sid of None \<Rightarrow> stripe_subscription_id v | Some x \<Rightarrow> Some x) \<and>
                   stripe_customer_id record =
                     (case cid of None \<Rightarrow> stripe_customer_id v | Some x \<Rightarrow> Some x) \<and>
                   current_period_start record = (case p_start of None \<Rightarrow> now | Some s \<Rightarrow> s) \<and>
                   current_period_end record = (case p_end of None \<Rightarrow> ce | Some e \<Rightarrow> e)
              else tbl' ! i = tbl ! i)"
proof -
  define s where "s = (case p_start of Some s \<Rightarrow> s | None \<Rightarrow> now)"
  define cend where "cend = (case p_end of None \<Rightarrow> ce | Some e \<Rightarrow> e)"
  define set_cols :: "subscriptions \<Rightarrow> subscriptions" where "set_cols = (\<lambda>r. r\<lparr>plan_type := plan, status := st,
          stripe_subscription_id := coalesce sid (stripe_subscription_id r),
          stripe_customer_id := coalesce cid (stripe_customer_id r),
          current_period_start := s,
          current_period_end := cend,
          updated_at := now\<rparr>)"
  have c: "(case p_end of None \<Rightarrow> calculate_subscription_period_end plan s | Some e \<Rightarrow> Inr e)
             = Inr cend"
    using ce unfolding s_def cend_def by (cases p_end) simp_all
  have sel: "select_by_user u tbl = Some v" using one by (rule select_by_user_only)
  have trg: "\<exists>r'. update_billing_period_text now (set_cols r) = Inr r'" for r
    by (rule trigger_ok [where ce = ce]) (simp add: set_cols_def s_def ce)
  have "\<exists>tbl'. sql_update now (\<lambda>r. user_id r = u) set_cols tbl = Inr tbl'"
    by (rule sql_update_ok) (rule trg)
  then obtain tbl' where upd: "sql_update now (\<lambda>r. user_id r = u) set_cols tbl = Inr tbl'" ..
  have keep: "user_id (set_cols r) = user_id r" for r by (simp add: set_cols_def)
  have "length (filter (\<lambda>r. user_id r = u) tbl') = 1"
    using sql_update_filter_length [OF upd keep, of u] one by simp
  then obtain row where flt: "filter (\<lambda>r. user_id r = u) tbl' = [row]"
    by (cases "filter (\<lambda>r. user_id r = u) tbl'") auto
  have res: "handle_subscription_webhook now new_id u plan p_status sid cid p_start p_end tbl
               = Inr (row, tbl')"
    unfolding handle_subscription_webhook_def Let_def s_def [symmetric] c
    using sel st upd flt by (simp add: set_cols_def)
  have len: "length tbl' = length tbl" using upd by (rule sql_update_length)
  have rows: "if user_id (tbl ! i) = u
              then tbl' ! i = row \<and>
                   stripe_subscription_id row =
                     (case sid of None \<Rightarrow> stripe_subscription_id v | Some x \<Rightarrow> Some x) \<and>
                   stripe_customer_id row =
                     (case cid of None \<Rightarrow> stripe_customer_id v | Some x \<Rightarrow> Some x) \<and>
                   current_period_start row = (case p_start of None \<Rightarrow> now | Some s \<Rightarrow> s) \<and>
                   current_period_end row = (case p_end of None \<Rightarrow> ce | Some e \<Rightarrow> e)
              else tbl' ! i = tbl ! i" if i: "i < length tbl" for i
  proof (cases "user_id (tbl ! i) = u")
    case True
    have v: "tbl ! i = v" using one nth_mem [OF i] True by (rule only_row)
    have w: "update_billing_period_text now (set_cols v) = Inr (tbl' ! i)"
      using sql_update_nth [OF upd i] True v by simp
    have "user_id (tbl' ! i) = u"
      using trigger_keeps(2) [OF w] keep [of v] True v by simp
    moreover have "tbl' ! i \<in> set tbl'" using i len by simp
    ultimately have r: "tbl' ! i = row" by (rule only_row [OF flt, rotated])
    show ?thesis
      using True r trigger_keeps(5-8) [OF w]
      by (simp add: set_cols_def coalesce_def s_def cend_def split: option.splits)
  next
    case False
    then show ?thesis using sql_update_nth [OF upd i] by simp
  qed
  show ?thesis
  proof (intro exI conjI allI impI)
    show "handle_subscription_webhook now new_id u plan p_status sid cid p_start p_end tbl
            = Inr (row, tbl')"
      by (rule res)
    show "length tbl' = length tbl" by (rule len)
  qed (rule rows)
qed

lemma status_update_one_row:
  assumes one: "filter (\<lambda>r. user_id r = u) tbl = [v]"
    and ce: "calculate_subscription_period_end (plan_type v) (current_period_start v) = Inr ce"
  shows "\<exists>tbl'. sql_update now (\<lambda>r. user_id r = u) (\<lambda>r. r\<lparr>status := st, updated_at := now\<rparr>) tbl
                   = Inr tbl' \<and>
           length tbl' = length tbl \<and>
           (\<forall>i < length tbl.
              if user_id (tbl ! i) = u
              then status (tbl' ! i) = st \<and> updated_at (tbl' ! i) = now \<and>
                   current_period_start (tbl' ! i) = current_period_start (tbl ! i) \<and>
                   current_period_end (tbl' ! i) = current_period_end (tbl ! i)
              else tbl' ! i = tbl ! i)"
proof -
  let ?set = "\<lambda>r::subscriptions. r\<lparr>status := st, updated_at := now\<rparr>"
  have trg: "\<exists>r'. update_billing_period_text now (?set r) = Inr r'"
    if "r \<in> set tbl" "user_id r = u" for r
  proof -
    have "r = v" using one that by (rule only_row)
    then have "calculate_subscription_period_end (plan_type (?set r)) (current_period_start (?set r))
                 = Inr ce"
      using ce by simp
    then show ?thesis by (rule trigger_ok)
  qed
  have "\<exists>tbl'. sql_update now (\<lambda>r. user_id r = u) ?set tbl = Inr tbl'"
    by (rule sql_update_ok) (rule trg)
  then obtain tbl' where upd: "sql_update now (\<lambda>r. user_id r = u) ?set tbl = Inr tbl'" ..
  have len: "length tbl' = length tbl" using upd by (rule sql_update_length)
  have rows: "if user_id (tbl ! i) = u
              then status (tbl' ! i) = st \<and> updated_at (tbl' ! i) = now \<and>
                   current_period_start (tbl' ! i) = current_period_start (tbl ! i) \<and>
                   current_period_end (tbl' ! i) = current_period_end (tbl ! i)
              else tbl' ! i = tbl ! i" if i: "i < length tbl" for i
  proof (cases "user_id (tbl ! i) = u")
    case True
    have w: "update_billing_period_text now (?set (tbl ! i)) = Inr (tbl' ! i)"
      using sql_update_nth [OF upd i] True by simp
    show ?thesis using True trigger_keeps(4,7,8,10) [OF w] by simp
  next
    case False
    then show ?thesis using sql_update_nth [OF upd i] by simp
  qed
  show ?thesis
  proof (intro exI conjI allI impI)
    show "sql_update now (\<lambda>r. user_id r = u) ?set tbl = Inr tbl'" by (rule upd)
    show "length tbl' = length tbl" by (rule len)
  qed (rule rows)
qed

lemma cancel_one_row:
  assumes one: "filter (\<lambda>r. user_id r = u) tbl = [v]"
  shows "(status v \<noteq> Active \<longrightarrow>
            cancel_subscription_safe now u reason tbl = Inl Subscription_not_active) \<and>
         (status v = Active \<and>
          calculate_subscription_period_end (plan_type v) (current_period_start v) = Inr ce \<longrightarrow>
            (\<exists>tbl'. cancel_subscription_safe now u reason tbl = Inr tbl' \<and>
               length tbl' = length tbl \<and>
               (\<forall>i < length tbl.
                  if user_id (tbl ! i) = u
                  then status (tbl' ! i) = Cancelled \<and> updated_at (tbl' ! i) = now \<and>
                       current_period_start (tbl' ! i) = current_period_start (tbl ! i) \<and>
                       current_period_end (tbl' ! i) = current_period_end (tbl ! i)
                  else tbl' ! i = tbl ! i)))"
proof (intro conjI impI)
  have sel: "select_by_user u tbl = Some v" using one by (rule select_by_user_only)
  show "cancel_subscription_safe now u reason tbl = Inl Subscription_not_active"
    if "status v \<noteq> Active"
    using sel that by (simp add: cancel_subscription_safe_def)
  show "\<exists>tbl'. cancel_subscription_safe now u reason tbl = Inr tbl' \<and>
               length tbl' = length tbl \<and>
               (\<forall>i < length tbl.
                  if user_id (tbl ! i) = u
                  then status (tbl' ! i) = Cancelled \<and> updated_at (tbl' ! i) = now \<and>
                       current_period_start (tbl' ! i) = current_period_start (tbl ! i) \<and>
                       current_period_end (tbl' ! i) = current_period_end (tbl ! i)
                  else tbl' ! i = tbl ! i)"
    if a: "status v = Active \<and>
           calculate_subscription_period_end (plan_type v) (current_period_start v) = Inr ce"
  proof -
    have c: "cancel_subscription_safe now u reason tbl =
          sql_update now (\<lambda>r. user_id r = u) (\<lambda>r. r\<lparr>status := Cancelled, updated_at := now\<rparr>) tbl"
      using sel a by (simp add: cancel_subscription_safe_def)
    from a have ce: "calculate_subscription_period_end (plan_type v) (current_period_start v) = Inr ce"
      by simp
    show ?thesis unfolding c using one ce by (rule status_update_one_row)
  qed
qed

lemma reactivate_one_row:
  assumes one: "filter (\<lambda>r. user_id r = u) tbl = [v]"
  shows "(status v \<noteq> Cancelled \<longrightarrow>
            reactivate_subscription now u pm tbl = Inl Subscription_not_cancelled) \<and>
         (status v = Cancelled \<and> current_period_end v \<le> now \<longrightarrow>
            reactivate_subscription now u pm tbl = Inl Subscription_already_expired) \<and>
         (status v = Cancelled \<and> now < current_period_end v \<and>
          calculate_subscription_period_end (plan_type v) (current_period_start v) = Inr ce \<longrightarrow>
            (\<exists>tbl'. reactivate_subscription now u pm tbl = Inr tbl' \<and>
               length tbl' = length tbl \<and>
               (\<forall>i < length tbl.
                  if user_id (tbl ! i) = u
                  then status (tbl' ! i) = Active \<and> updated_at (tbl' ! i) = now \<and>
                       current_period_start (tbl' ! i) = current_period_start (tbl ! i) \<and>
                       current_period_end (tbl' ! i) = current_period_end (tbl ! i)
                  else tbl' ! i = tbl ! i)))"
proof (intro conjI impI)
  have sel: "select_by_user u tbl = Some v" using one by (rule select_by_user_only)
  show "reactivate_subscription now u pm tbl = Inl Subscription_not_cancelled"
    if "status v \<noteq> Cancelled"
    using sel that by (simp add: reactivate_subscription_def)
  show "reactivate_subscription now u pm tbl = Inl Subscription_already_expired"
    if "status v = Cancelled \<and> current_period_end v \<le> now"
    using sel that by (simp add: reactivate_subscription_def)
  show "\<exists>tbl'. reactivate_subscription now u pm tbl = Inr tbl' \<and>
               length tbl' = length tbl \<and>
               (\<forall>i < length tbl.
                  if user_id (tbl ! i) = u
                  then status (tbl' ! i) = Active \<and> updated_at (tbl' ! i) = now \<and>
                       current_period_start (tbl' ! i) = current_period_start (tbl ! i) \<and>
                       current_period_end (tbl' ! i) = current_period_end (tbl ! i)
                  else tbl' ! i = tbl ! i)"
    if a: "status v = Cancelled \<and> now < current_period_end v \<and>
           calculate_subscription_period_end (plan_type v) (current_period_start v) = Inr ce"
  proof -
    have c: "reactivate_subscription now u pm tbl =
          sql_update now (\<lambda>r. user_id r = u) (\<lambda>r. r\<lparr>status := Active, updated_at := now\<rparr>) tbl"
      using sel a by (simp add: reactivate_subscription_def)
    from a have ce: "calculate_subscription_period_end (plan_type v) (current_period_start v) = Inr ce"
      by simp
    show ?thesis unfolding c using one ce by (rule status_update_one_row)
  qed
qed

section \<open>The repair of stored periods\<close>

text \<open>
  After a run of \<^verbatim>\<open>fix_existing_billing_periods\<close> that does not raise, every row has its
  period end after its period start, when the identifiers are distinct and the rows
  flagged accurate pass the accuracy check.
\<close>

lemma fix_loop_period_ordered:
  assumes "fix_loop now xs t = Inr t'"
    and "\<forall>x \<in> set xs. \<forall>r \<in> set t. id_col r = id_col x \<longrightarrow>
           current_period_start r = current_period_start x"
    and "\<forall>r \<in> set t. period_ordered r \<or> id_col r \<in> id_col ` set xs"
  shows "\<forall>r \<in> set t'. period_ordered r"
  using assms
proof (induction xs arbitrary: t)
  case Nil
  then show ?case by simp
next
  case (Cons x xs)
  from Cons.prems(1) obtain ce t1 where
    ce: "calculate_subscription_period_end (plan_type x) (current_period_start x) = Inr ce"
    and upd: "sql_update now (\<lambda>r. id_col r = id_col x)
                (\<lambda>r. r\<lparr>current_period_end := ce, updated_at := now\<rparr>) t = Inr t1"
    and rest: "fix_loop now xs t1 = Inr t'"
    by (auto split: sum.splits)
  have gt: "current_period_start x < ce" using ce by (rule calculate_subscription_period_end_gt)
  show ?case
  proof (rule Cons.IH [OF rest])
    show "\<forall>y \<in> set xs. \<forall>r \<in> set t1. id_col r = id_col y \<longrightarrow>
            current_period_start r = current_period_start y"
    proof (intro ballI impI)
      fix y r' assume y: "y \<in> set xs" and r': "r' \<in> set t1" and i: "id_col r' = id_col y"
      from upd r' show "current_period_start r' = current_period_start y"
      proof (cases rule: in_sql_update)
        case (1 r)
        have "id_col r = id_col y" using i trigger_keeps(1) [OF 1(3)] by simp
        moreover have "y \<in> set (x # xs)" using y by simp
        ultimately have "current_period_start r = current_period_start y"
          using Cons.prems(2) 1(1) by blast
        then show ?thesis using trigger_keeps(7) [OF 1(3)] by simp
      next
        case 2
        moreover have "y \<in> set (x # xs)" using y by simp
        ultimately show ?thesis using Cons.prems(2) i by blast
      qed
    qed
    show "\<forall>r \<in> set t1. period_ordered r \<or> id_col r \<in> id_col ` set xs"
    proof
      fix r' assume r': "r' \<in> set t1"
      from upd r' show "period_ordered r' \<or> id_col r' \<in> id_col ` set xs"
      proof (cases rule: in_sql_update)
        case (1 r)
        have "x \<in> set (x # xs)" by simp
        then have "current_period_start r = current_period_start x"
          using Cons.prems(2) 1(1,2) by blast
        then have "period_ordered r'"
          using gt trigger_keeps(7,8) [OF 1(3)] by (simp add: period_ordered_def)
        then show ?thesis ..
      next
        case 2
        then have "period_ordered r' \<or> id_col r' \<in> id_col ` set (x # xs)"
          using Cons.prems(3) by blast
        then show ?thesis using 2(2) by auto
      qed
    qed
  qed
qed

lemma fix_existing_billing_periods_period_ordered:
  assumes res: "fix_existing_billing_periods now tbl = Inr tbl'"
    and ids: "distinct (map id_col tbl)"
    and flags: "\<forall>r \<in> set tbl. billing_period_accurate r = Some True \<longrightarrow>
                  validate_billing_period_accuracy
                    (current_period_start r) (current_period_end r) (plan_type r) = Inr True"
  shows "\<forall>r \<in> set tbl'. period_ordered r"
proof (rule fix_loop_period_ordered [OF res [unfolded fix_existing_billing_periods_def]])
  let ?xs = "filter (\<lambda>r. billing_period_accurate r = Some False \<or> billing_period_accurate r = None) tbl"
  have inj: "inj_on id_col (set tbl)" using ids by (simp add: distinct_map)
  show "\<forall>x \<in> set ?xs. \<forall>r \<in> set tbl. id_col r = id_col x \<longrightarrow>
          current_period_start r = current_period_start x"
  proof (intro ballI impI)
    fix x r assume "x \<in> set ?xs" "r \<in> set tbl" "id_col r = id_col x"
    then have "r = x" using inj by (auto dest: inj_onD)
    then show "current_period_start r = current_period_start x" by simp
  qed
  show "\<forall>r \<in> set tbl. period_ordered r \<or> id_col r \<in> id_col ` set ?xs"
  proof
    fix r assume r: "r \<in> set tbl"
    show "period_ordered r \<or> id_col r \<in> id_col ` set ?xs"
    proof (cases "billing_period_accurate r = Some True")
      case True
      then have "validate_billing_period_accuracy
                    (current_period_start r) (current_period_end r) (plan_type r) = Inr True"
        using flags r by simp
      then have "period_ordered r"
        unfolding period_ordered_def by (rule validate_billing_period_accuracy_ordered)
      then show ?thesis ..
    next
      case False
      then have "billing_period_accurate r = Some False \<or> billing_period_accurate r = None"
        by (cases "billing_period_accurate r") auto
      then have "r \<in> set ?xs" using r by simp
      then show ?thesis by blast
    qed
  qed
qed

section \<open>The latest row\<close>

lemma latest_created_Some:
  assumes "rs \<noteq> []"
  shows "\<exists>r \<in> set rs. latest_created rs = Some r \<and> (\<forall>r' \<in> set rs. created_at r' \<le> created_at r)"
  using assms
proof (induction rs)
  case Nil
  then show ?case by simp
next
  case (Cons a rs)
  show ?case
  proof (cases "rs = []")
    case True
    then show ?thesis by simp
  next
    case False
    from Cons.IH [OF False] obtain r where r: "r \<in> set rs" "latest_created rs = Some r"
      "\<forall>r' \<in> set rs. created_at r' \<le> created_at r" by blast
    show ?thesis
    proof (cases "created_at a < created_at r")
      case True
      then show ?thesis using r by auto
    next
      case False
      then show ?thesis using r by force
    qed
  qed
qed

section \<open>The example calls\<close>

lemmas row_defs = row_u1_def row_u1_old_def row_u2_def jan15_def day_def

lemma Inr_caseE:
  assumes "case x of Inl e \<Rightarrow> False | Inr y \<Rightarrow> P y"
  obtains y where "x = Inr y" "P y"
  using assms by (cases x) simp_all

lemma period_end_monthly_example:
  "calculate_subscription_period_end Monthly jan15 = Inr (jan15 + 31 * day)"
  by code_simp

lemma rows_period_ordered:
  "period_ordered row_u2" "period_ordered (row_u1 st)"
  by (simp_all add: period_ordered_def row_defs)

lemma webhook_first_call_example:
  "\<exists>r1 tbl1.
     handle_subscription_webhook jan15 ''s9'' ''u1'' Monthly ''active''
       None (Some ''cus_B'') (Some jan15) None [row_u2, row_u1 Past_due] = Inr (r1, tbl1) \<and>
     current_period_end r1 = jan15 + 31 * day"
proof -
  have a: "filter (\<lambda>r. user_id r = ''u1'') [row_u2, row_u1 Past_due] = [row_u1 Past_due]"
    by (simp add: row_defs)
  have b: "subscription_status_in ''active'' = Some Active"
    by (simp add: subscription_status_in_def)
  have c: "calculate_subscription_period_end Monthly (case Some jan15 of Some s \<Rightarrow> s | None \<Rightarrow> jan15)
             = Inr (jan15 + 31 * day)"
    by (simp add: period_end_monthly_example)
  from webhook_update_one_row [OF a b c, of "''s9''" None "Some ''cus_B''" None]
  obtain r1 tbl1 where
    h: "handle_subscription_webhook jan15 ''s9'' ''u1'' Monthly ''active''
          None (Some ''cus_B'') (Some jan15) None [row_u2, row_u1 Past_due] = Inr (r1, tbl1)"
    and rows: "\<forall>i < length [row_u2, row_u1 Past_due].
              if user_id ([row_u2, row_u1 Past_due] ! i) = ''u1''
              then tbl1 ! i = r1 \<and>
                   stripe_subscription_id r1 =
                     (case None of None \<Rightarrow> stripe_subscription_id (row_u1 Past_due) | Some x \<Rightarrow> Some x) \<and>
                   stripe_customer_id r1 =
                     (case Some ''cus_B'' of None \<Rightarrow> stripe_customer_id (row_u1 Past_due) | Some x \<Rightarrow> Some x) \<and>
                   current_period_start r1 = (case Some jan15 of None \<Rightarrow> jan15 | Some s \<Rightarrow> s) \<and>
                   current_period_end r1 = (case None of None \<Rightarrow> jan15 + 31 * day | Some e \<Rightarrow> e)
              else tbl1 ! i = [row_u2, row_u1 Past_due] ! i"
    by (elim exE conjE)
  have "user_id ([row_u2, row_u1 Past_due] ! 1) = ''u1''" by (simp add: row_defs)
  with rows [rule_format, of 1] have "current_period_end r1 = jan15 + 31 * day" by simp
  with h show ?thesis by (intro exI conjI)
qed

lemma webhook_null_start_periods:
  "map current_period_start
     (snd (projr (handle_subscription_webhook jan15 ''s9'' ''u9'' Monthly ''active''
                    None None None None []))) = [jan15] \<and>
   map current_period_start
     (snd (projr (handle_subscription_webhook (jan15 + day) ''s10'' ''u9'' Monthly ''active''
                    None None None None
                    (snd (projr (handle_subscription_webhook jan15 ''s9'' ''u9'' Monthly ''active''
                                   None None None None [])))))) = [jan15 + day]"
  by code_simp

lemma webhook_update_example:
  "case handle_subscription_webhook (jan15 + day) ''s9'' ''u1'' Annual ''past_due''
       None (Some ''cus_B'') (Some jan15) None [row_u2, row_u1 Active] of
     Inl e \<Rightarrow> False
   | Inr res \<Rightarrow> snd res = [row_u2, fst res] \<and> user_id (fst res) = ''u1''"
  by code_simp

lemma cancel_example:
  "case cancel_subscription_safe (jan15 + day) ''u1'' None [row_u2, row_u1 Active] of
     Inl e \<Rightarrow> False
   | Inr tbl' \<Rightarrow> length tbl' = 2 \<and> tbl' ! 0 = row_u2 \<and> user_id (tbl' ! 1) = ''u1''"
  by code_simp

lemma reactivate_example:
  "case reactivate_subscription (jan15 + day) ''u1'' ''pm_1'' [row_u2, row_u1 Cancelled] of
     Inl e \<Rightarrow> False
   | Inr tbl' \<Rightarrow> length tbl' = 2 \<and> tbl' ! 0 = row_u2 \<and> user_id (tbl' ! 1) = ''u1''"
  by code_simp

section \<open>The claims\<close>

text \<open>
  Claim C1, as the code has it. When the period of the user's latest row has ended
  (\<open>current_period_end \<le> now\<close>), \<^verbatim>\<open>get_subscription_access_status\<close> grants access exactly
  when the row's status is \<open>active\<close>: it denies access for every other status, and an
  \<open>active\<close> row keeps access past its period end.
\<close>
theorem expired_access_iff_active:
  assumes "latest_created (filter (\<lambda>s. user_id s = u) tbl) = Some r"
    and "current_period_end r \<le> now"
  shows "has_access (get_subscription_access_status now u tbl) = (status r = Active)"
  using assms by (simp add: get_subscription_access_status_def Let_def)

theorem expired_access_iff_active_witness:
  "latest_created (filter (\<lambda>s. user_id s = ''u1'') [row_u1_old, row_u1 Active, row_u2]) = Some (row_u1 Active) \<and>
   current_period_end (row_u1 Active) \<le> jan15 + 40 * day \<and>
   has_access (get_subscription_access_status (jan15 + 40 * day) ''u1'' [row_u1_old, row_u1 Active, row_u2])
     = (status (row_u1 Active) = Active)"
proof -
  have a: "latest_created (filter (\<lambda>s. user_id s = ''u1'') [row_u1_old, row_u1 Active, row_u2]) = Some (row_u1 Active)"
    by (simp add: row_defs)
  have b: "current_period_end (row_u1 Active) \<le> jan15 + 40 * day"
    by (simp add: row_defs)
  show ?thesis using a b expired_access_iff_active [OF a b] by blast
qed

text \<open>
  Against claim C1 as stated: forty days after 2024-01-15 the latest row of user \<open>u1\<close> is
  \<open>active\<close> with its period over, and access is granted.
\<close>
theorem expired_active_row_has_access:
  "status_out (get_subscription_access_status (jan15 + 40 * day) ''u1'' [row_u1_old, row_u1 Active, row_u2]) = Active \<and>
   current_period_end_out (get_subscription_access_status (jan15 + 40 * day) ''u1'' [row_u1_old, row_u1 Active, row_u2])
     \<le> jan15 + 40 * day \<and>
   has_access (get_subscription_access_status (jan15 + 40 * day) ''u1'' [row_u1_old, row_u1 Active, row_u2])"
  by (simp add: get_subscription_access_status_def row_defs Let_def)

text \<open>
  Claim C2. For a user with at least one row, \<^verbatim>\<open>get_subscription_access_status\<close> computes
  from a row of that user created last: \<open>is_expired\<close> is \<open>current_period_end \<le> now\<close>,
  \<open>is_cancelled\<close> is \<open>status = cancelled\<close>, \<open>days_remaining\<close> is the larger of 0 and the floor
  of the time left in days, and \<open>has_access\<close> holds when the status is \<open>active\<close>, or the
  row is cancelled and not expired.
\<close>
theorem access_status_from_latest_row:
  assumes "\<exists>r \<in> set tbl. user_id r = u"
  shows "\<exists>r \<in> set tbl. user_id r = u \<and>
           (\<forall>r' \<in> set tbl. user_id r' = u \<longrightarrow> created_at r' \<le> created_at r) \<and>
           is_expired (get_subscription_access_status now u tbl) = (current_period_end r \<le> now) \<and>
           is_cancelled (get_subscription_access_status now u tbl) = (status r = Cancelled) \<and>
           days_remaining (get_subscription_access_status now u tbl) =
             max 0 \<lfloor>real_of_int (current_period_end r - now) / real_of_int usecs_per_day\<rfloor> \<and>
           has_access (get_subscription_access_status now u tbl) =
             (status r = Active \<or>
              (is_cancelled (get_subscription_access_status now u tbl) \<and>
               \<not> is_expired (get_subscription_access_status now u tbl)))"
proof -
  let ?rs = "filter (\<lambda>s. user_id s = u) tbl"
  have "?rs \<noteq> []" using assms by (simp add: filter_empty_conv)
  from latest_created_Some [OF this] obtain r where r: "r \<in> set ?rs"
    "latest_created ?rs = Some r" "\<forall>r' \<in> set ?rs. created_at r' \<le> created_at r" by blast
  have fl: "\<lfloor>real_of_int (current_period_end r - now) / real_of_int usecs_per_day\<rfloor> =
        (current_period_end r - now) div usecs_per_day"
    by (rule floor_divide_of_int_eq)
  then have fl: "\<lfloor>(real_of_int (current_period_end r) - real_of_int now) / real_of_int usecs_per_day\<rfloor> =
        (current_period_end r - now) div usecs_per_day"
    by simp
  show ?thesis
  proof (intro bexI [of _ r] conjI)
    show "r \<in> set tbl" "user_id r = u" using r(1) by simp_all
    show "\<forall>r' \<in> set tbl. user_id r' = u \<longrightarrow> created_at r' \<le> created_at r"
      using r(3) by simp
  qed (simp_all add: get_subscription_access_status_def r(2) Let_def fl extract_day_max)
qed

theorem access_status_from_latest_row_witness:
  "(\<exists>r \<in> set [row_u1_old, row_u1 Cancelled, row_u2]. user_id r = ''u1'') \<and>
   (\<exists>r \<in> set [row_u1_old, row_u1 Cancelled, row_u2]. user_id r = ''u1'' \<and>
           (\<forall>r' \<in> set [row_u1_old, row_u1 Cancelled, row_u2]. user_id r' = ''u1'' \<longrightarrow> created_at r' \<le> created_at r) \<and>
           is_expired (get_subscription_access_status (jan15 + 26 * day) ''u1'' [row_u1_old, row_u1 Cancelled, row_u2]) = (current_period_end r \<le> jan15 + 26 * day) \<and>
           is_cancelled (get_subscription_access_status (jan15 + 26 * day) ''u1'' [row_u1_old, row_u1 Cancelled, row_u2]) = (status r = Cancelled) \<and>
           days_remaining (get_subscription_access_status (jan15 + 26 * day) ''u1'' [row_u1_old, row_u1 Cancelled, row_u2]) =
             max 0 \<lfloor>real_of_int (current_period_end r - (jan15 + 26 * day)) / real_of_int usecs_per_day\<rfloor> \<and>
           has_access (get_subscription_access_status (jan15 + 26 * day) ''u1'' [row_u1_old, row_u1 Cancelled, row_u2]) =
             (status r = Active \<or>
              (is_cancelled (get_subscription_access_status (jan15 + 26 * day) ''u1'' [row_u1_old, row_u1 Cancelled, row_u2]) \<and>
               \<not> is_expired (get_subscription_access_status (jan15 + 26 * day) ''u1'' [row_u1_old, row_u1 Cancelled, row_u2]))))"
proof -
  have h: "\<exists>r \<in> set [row_u1_old, row_u1 Cancelled, row_u2]. user_id r = ''u1''"
    by (simp add: row_defs)
  show ?thesis by (rule conjI [OF h access_status_from_latest_row [OF h]])
qed

text \<open>
  Claim C3, as the code has it. When \<^verbatim>\<open>handle_subscription_webhook\<close> has succeeded with a
  non-null \<^verbatim>\<open>p_period_start\<close>, a second call with the same arguments at a later instant
  \<open>t2\<close> succeeds and leaves every row of the table, and the row returned, as the first call
  left them apart from \<^verbatim>\<open>updated_at\<close>, provided the period end the first call stored is
  over at both instants or at neither (the billing text carries a prefix once the period
  is over).
\<close>
theorem webhook_twice_same_row:
  assumes first: "handle_subscription_webhook t1 id1 u plan p_status sid cid (Some ps) p_end tbl
                    = Inr (r1, tbl1)"
    and expiry: "(current_period_end r1 \<le> t1) = (current_period_end r1 \<le> t2)"
  shows "\<exists>r2 tbl2.
           handle_subscription_webhook t2 id2 u plan p_status sid cid (Some ps) p_end tbl1
             = Inr (r2, tbl2) \<and>
           map without_updated_at tbl2 = map without_updated_at tbl1 \<and>
           without_updated_at r2 = without_updated_at r1"
  using first
proof (cases rule: webhook_cases)
  case (updated found st set_cols cend)
  have cend: "(case p_end of None \<Rightarrow> calculate_subscription_period_end plan ps | Some e \<Rightarrow> Inr e)
                = Inr cend"
    using updated(1) by (cases p_end) simp_all
  have written: "\<exists>r0. update_billing_period_text t1 (set_cols r0) = Inr r"
    if "r \<in> set tbl1" "user_id r = u" for r
    using updated(5) that(1)
    by (cases rule: in_sql_update) (use that(2) in auto)
  have "r1 \<in> set (filter (\<lambda>r. user_id r = u) tbl1)" unfolding updated(6) by simp
  then have "r1 \<in> set tbl1" "user_id r1 = u" by simp_all
  then obtain r0 where "update_billing_period_text t1 (set_cols r0) = Inr r1"
    using written by blast
  then have "current_period_end r1 = cend"
    using trigger_keeps(8) [of t1 "set_cols r0" r1] by (simp add: updated(4))
  then have ex: "(cend \<le> t1) = (cend \<le> t2)" using expiry by simp
  show ?thesis
  proof (rule webhook_second_call [OF updated(6,3) cend])
    fix r assume "r \<in> set tbl1" "user_id r = u"
    then obtain r0 where r: "update_billing_period_text t1 (set_cols r0) = Inr r"
      using written by blast
    show "update_billing_period_text t2
           (r\<lparr>plan_type := plan, status := st,
              stripe_subscription_id := coalesce sid (stripe_subscription_id r),
              stripe_customer_id := coalesce cid (stripe_customer_id r),
              current_period_start := ps, current_period_end := cend, updated_at := t2\<rparr>)
         = Inr (r\<lparr>updated_at := t2\<rparr>)"
      by (rule rewrite_same [OF ex r]) (simp_all add: updated(4))
  qed
next
  case (inserted st cend)
  have cend: "(case p_end of None \<Rightarrow> calculate_subscription_period_end plan ps | Some e \<Rightarrow> Inr e)
                = Inr cend"
    using inserted(1) by (cases p_end) simp_all
  have none: "\<forall>x \<in> set tbl. user_id x \<noteq> u"
    using inserted(2) by (simp add: select_by_user_None)
  have u: "user_id r1 = u" using trigger_keeps(2) [OF inserted(4)] by simp
  have one: "filter (\<lambda>r. user_id r = u) tbl1 = [r1]"
    unfolding inserted(5) using none u by (simp add: filter_empty_conv)
  have "current_period_end r1 = cend" using trigger_keeps(8) [OF inserted(4)] by simp
  then have ex: "(cend \<le> t1) = (cend \<le> t2)" using expiry by simp
  show ?thesis
  proof (rule webhook_second_call [OF one inserted(3) cend])
    fix r assume "r \<in> set tbl1" "user_id r = u"
    then have r: "r = r1" unfolding inserted(5) using none by auto
    show "update_billing_period_text t2
           (r\<lparr>plan_type := plan, status := st,
              stripe_subscription_id := coalesce sid (stripe_subscription_id r),
              stripe_customer_id := coalesce cid (stripe_customer_id r),
              current_period_start := ps, current_period_end := cend, updated_at := t2\<rparr>)
         = Inr (r\<lparr>updated_at := t2\<rparr>)"
      unfolding r by (rule rewrite_same [OF ex inserted(4)]) simp_all
  qed
qed

theorem webhook_twice_same_row_witness:
  "(\<exists>r2 tbl2.
      handle_subscription_webhook (jan15 + day) ''s10'' ''u1'' Monthly ''active''
          None (Some ''cus_B'') (Some jan15) None
          (snd (projr (handle_subscription_webhook jan15 ''s9'' ''u1'' Monthly ''active''
                          None (Some ''cus_B'') (Some jan15) None [row_u2, row_u1 Past_due])))
        = Inr (r2, tbl2) \<and>
      map without_updated_at tbl2 =
        map without_updated_at
          (snd (projr (handle_subscription_webhook jan15 ''s9'' ''u1'' Monthly ''active''
                          None (Some ''cus_B'') (Some jan15) None [row_u2, row_u1 Past_due]))) \<and>
      without_updated_at r2 =
        without_updated_at
          (fst (projr (handle_subscription_webhook jan15 ''s9'' ''u1'' Monthly ''active''
                          None (Some ''cus_B'') (Some jan15) None [row_u2, row_u1 Past_due]))))"
proof -
  from webhook_first_call_example obtain r1 tbl1 where
    h: "handle_subscription_webhook jan15 ''s9'' ''u1'' Monthly ''active''
          None (Some ''cus_B'') (Some jan15) None [row_u2, row_u1 Past_due] = Inr (r1, tbl1)"
    and e: "current_period_end r1 = jan15 + 31 * day"
    by (elim exE conjE)
  have x: "(current_period_end r1 \<le> jan15) = (current_period_end r1 \<le> jan15 + day)"
    by (simp add: e day_def)
  show ?thesis
    using webhook_twice_same_row [OF h x, of "''s10''"] by (simp add: h)
qed

text \<open>
  Against claim C3 as stated: with a null \<^verbatim>\<open>p_period_start\<close>, a second call with the same
  arguments one day later moves the period start, so the table differs from the one the
  first call left in more than \<^verbatim>\<open>updated_at\<close>.
\<close>
theorem webhook_twice_null_start_differs:
  "map without_updated_at
     (snd (projr (handle_subscription_webhook (jan15 + day) ''s10'' ''u9'' Monthly ''active''
                    None None None None
                    (snd (projr (handle_subscription_webhook jan15 ''s9'' ''u9'' Monthly ''active''
                                   None None None None []))))))
   \<noteq> map without_updated_at
     (snd (projr (handle_subscription_webhook jan15 ''s9'' ''u9'' Monthly ''active''
                    None None None None [])))"
proof
  assume "map without_updated_at
     (snd (projr (handle_subscription_webhook (jan15 + day) ''s10'' ''u9'' Monthly ''active''
                    None None None None
                    (snd (projr (handle_subscription_webhook jan15 ''s9'' ''u9'' Monthly ''active''
                                   None None None None []))))))
   = map without_updated_at
     (snd (projr (handle_subscription_webhook jan15 ''s9'' ''u9'' Monthly ''active''
                    None None None None [])))"
  then have "map current_period_start (map without_updated_at
     (snd (projr (handle_subscription_webhook (jan15 + day) ''s10'' ''u9'' Monthly ''active''
                    None None None None
                    (snd (projr (handle_subscription_webhook jan15 ''s9'' ''u9'' Monthly ''active''
                                   None None None None [])))))))
   = map current_period_start (map without_updated_at
     (snd (projr (handle_subscription_webhook jan15 ''s9'' ''u9'' Monthly ''active''
                    None None None None []))))"
    by (rule arg_cong)
  then have "[jan15 + day] = [jan15]"
    using webhook_null_start_periods by (simp add: without_updated_at_def comp_def)
  then show False by (simp add: day_def)
qed

text \<open>
  Claim C4 at a user with two rows. User \<open>u1\<close> has an older row and a current one, and the
  status label is one of the enumeration. The \<^verbatim>\<open>UPDATE\<close> of
  \<^verbatim>\<open>handle_subscription_webhook\<close> rewrites both rows and \<^verbatim>\<open>RETURNING * INTO\<close> gets two
  rows: the call raises and nothing is stored, neither the customer reference passed nor
  the period.
\<close>
theorem webhook_update_two_rows_raises:
  "subscription_status_in ''active'' = Some Active \<and>
   map user_id [row_u1_old, row_u1 Active] = [''u1'', ''u1''] \<and>
   handle_subscription_webhook (jan15 + day) ''s9'' ''u1'' Monthly ''active''
       None (Some ''cus_B'') (Some jan15) None [row_u1_old, row_u1 Active] = Inl Too_many_rows"
  by code_simp

text \<open>
  Claim C5, as the code has it. For every start instant,
  \<^verbatim>\<open>calculate_subscription_period_end\<close> computes the start plus 30 days for the plan \<open>trial\<close>
  and for a plan that is none of the four, and for \<open>monthly\<close>, \<open>semiannual\<close> and \<open>annual\<close>
  the instant at the same time of day on the civil date one calendar month, six calendar
  months and one calendar year after the civil date of the start, the day of the month
  cut down to the length of the month reached. It returns that instant when it lies
  within the range of the engine's timestamps and raises "timestamp out of range" when it
  does not. The last six conjuncts say that \<open>instant_at\<close> is the instant of that civil date
  and time of day.
\<close>
theorem calculate_subscription_period_end_calendar:
  "calculate_subscription_period_end Trial start = check_timestamp (start + 30 * usecs_per_day) \<and>
   calculate_subscription_period_end Unlisted_plan start
     = check_timestamp (start + 30 * usecs_per_day) \<and>
   calculate_subscription_period_end Monthly start
     = check_timestamp (instant_at (one_month_later (civil_from_days (start div usecs_per_day)))
                          (start mod usecs_per_day)) \<and>
   calculate_subscription_period_end Semiannual start
     = check_timestamp (instant_at (six_months_later (civil_from_days (start div usecs_per_day)))
                          (start mod usecs_per_day)) \<and>
   calculate_subscription_period_end Annual start
     = check_timestamp (instant_at (one_year_later (civil_from_days (start div usecs_per_day)))
                          (start mod usecs_per_day)) \<and>
   civil_from_days (instant_at (one_month_later (civil_from_days (start div usecs_per_day)))
                      (start mod usecs_per_day) div usecs_per_day)
     = one_month_later (civil_from_days (start div usecs_per_day)) \<and>
   civil_from_days (instant_at (six_months_later (civil_from_days (start div usecs_per_day)))
                      (start mod usecs_per_day) div usecs_per_day)
     = six_months_later (civil_from_days (start div usecs_per_day)) \<and>
   civil_from_days (instant_at (one_year_later (civil_from_days (start div usecs_per_day)))
                      (start mod usecs_per_day) div usecs_per_day)
     = one_year_later (civil_from_days (start div usecs_per_day)) \<and>
   instant_at (one_month_later (civil_from_days (start div usecs_per_day)))
       (start mod usecs_per_day) mod usecs_per_day = start mod usecs_per_day \<and>
   instant_at (six_months_later (civil_from_days (start div usecs_per_day)))
       (start mod usecs_per_day) mod usecs_per_day = start mod usecs_per_day \<and>
   instant_at (one_year_later (civil_from_days (start div usecs_per_day)))
       (start mod usecs_per_day) mod usecs_per_day = start mod usecs_per_day"
proof -
  obtain y m d where c: "civil_from_days (start div usecs_per_day) = (y, m, d)"
    by (cases "civil_from_days (start div usecs_per_day)")
  note ml = months_later [OF c, folded c]
  note il = instant_at_later [OF refl, of start]
  show ?thesis
    unfolding calculate_subscription_period_end_def
    by (simp add: ml il timestamptz_pl_days_def)
qed

text \<open>
  Against claim C5 as stated: one day before the end of the engine's range is a start
  instant the engine accepts, and the trial period from it has no end: the call raises.
\<close>
theorem period_end_out_of_range:
  "is_valid_timestamp (end_timestamp - day) \<and>
   calculate_subscription_period_end Trial (end_timestamp - day) = Inl Timestamp_out_of_range"
  by (simp add: calculate_subscription_period_end_def check_timestamp_def is_valid_timestamp_def
        timestamptz_pl_days_def end_timestamp_def min_timestamp_def day_def usecs_per_day_def)

text \<open>
  Claim C6. Every row that \<^verbatim>\<open>handle_subscription_webhook\<close>, \<^verbatim>\<open>cancel_subscription_safe\<close>
  or \<^verbatim>\<open>reactivate_subscription\<close> writes (the rows of the user, and the row the webhook
  handler returns) leaves the write with \<^verbatim>\<open>billing_period_text\<close> equal to the generated
  text and \<^verbatim>\<open>billing_period_accurate\<close> equal to the accuracy check, both of the row's own
  period start, period end and plan, the text being the one generated at the instant of
  the write.
\<close>
theorem writes_recompute_derived:
  "(handle_subscription_webhook now new_id u plan p_status sid cid p_start p_end tbl_w
      = Inr (record, tbl_w') \<longrightarrow>
      derived_consistent now record \<and>
      (\<forall>r \<in> set tbl_w'. user_id r = u \<longrightarrow> derived_consistent now r)) \<and>
   (cancel_subscription_safe now u reason tbl_c = Inr tbl_c' \<longrightarrow>
      (\<forall>r \<in> set tbl_c'. user_id r = u \<longrightarrow> derived_consistent now r)) \<and>
   (reactivate_subscription now u pm tbl_r = Inr tbl_r' \<longrightarrow>
      (\<forall>r \<in> set tbl_r'. user_id r = u \<longrightarrow> derived_consistent now r))"
proof (intro conjI impI)
  assume a: "handle_subscription_webhook now new_id u plan p_status sid cid p_start p_end tbl_w
               = Inr (record, tbl_w')"
  show "derived_consistent now record"
    using webhook_consistent [OF a] by (rule conjunct1)
  show "\<forall>r \<in> set tbl_w'. user_id r = u \<longrightarrow> derived_consistent now r"
    using webhook_consistent [OF a] by (rule conjunct2)
next
  assume "cancel_subscription_safe now u reason tbl_c = Inr tbl_c'"
  then show "\<forall>r \<in> set tbl_c'. user_id r = u \<longrightarrow> derived_consistent now r"
    by (rule cancel_consistent)
next
  assume "reactivate_subscription now u pm tbl_r = Inr tbl_r'"
  then show "\<forall>r \<in> set tbl_r'. user_id r = u \<longrightarrow> derived_consistent now r"
    by (rule reactivate_consistent)
qed

theorem writes_recompute_derived_witness:
  "derived_consistent (jan15 + day)
     (fst (projr (handle_subscription_webhook (jan15 + day) ''s9'' ''u1'' Annual ''past_due''
                    None (Some ''cus_B'') (Some jan15) None [row_u2, row_u1 Active]))) \<and>
   user_id (snd (projr (handle_subscription_webhook (jan15 + day) ''s9'' ''u1'' Annual ''past_due''
                    None (Some ''cus_B'') (Some jan15) None [row_u2, row_u1 Active])) ! 1) = ''u1'' \<and>
   derived_consistent (jan15 + day)
     (snd (projr (handle_subscription_webhook (jan15 + day) ''s9'' ''u1'' Annual ''past_due''
                    None (Some ''cus_B'') (Some jan15) None [row_u2, row_u1 Active])) ! 1) \<and>
   derived_consistent (jan15 + day)
     (projr (cancel_subscription_safe (jan15 + day) ''u1'' None [row_u2, row_u1 Active]) ! 1) \<and>
   derived_consistent (jan15 + day)
     (projr (reactivate_subscription (jan15 + day) ''u1'' ''pm_1'' [row_u2, row_u1 Cancelled]) ! 1)"
proof -
  from webhook_update_example obtain res where
    hw: "handle_subscription_webhook (jan15 + day) ''s9'' ''u1'' Annual ''past_due''
           None (Some ''cus_B'') (Some jan15) None [row_u2, row_u1 Active] = Inr res"
    and sw: "snd res = [row_u2, fst res] \<and> user_id (fst res) = ''u1''"
    by (rule Inr_caseE)
  from cancel_example obtain tc where
    hc: "cancel_subscription_safe (jan15 + day) ''u1'' None [row_u2, row_u1 Active] = Inr tc"
    and sc: "length tc = 2 \<and> tc ! 0 = row_u2 \<and> user_id (tc ! 1) = ''u1''"
    by (rule Inr_caseE)
  from reactivate_example obtain tr where
    hr: "reactivate_subscription (jan15 + day) ''u1'' ''pm_1'' [row_u2, row_u1 Cancelled] = Inr tr"
    and sr: "length tr = 2 \<and> tr ! 0 = row_u2 \<and> user_id (tr ! 1) = ''u1''"
    by (rule Inr_caseE)
  have hw': "handle_subscription_webhook (jan15 + day) ''s9'' ''u1'' Annual ''past_due''
           None (Some ''cus_B'') (Some jan15) None [row_u2, row_u1 Active] = Inr (fst res, snd res)"
    using hw by simp
  have mc: "tc ! 1 \<in> set tc" and mr: "tr ! 1 \<in> set tr" using sc sr by simp_all
  note t = writes_recompute_derived
    [of "jan15 + day" "''s9''" "''u1''" Annual "''past_due''" None "Some ''cus_B''" "Some jan15" None
        "[row_u2, row_u1 Active]" "fst res" "snd res" None "[row_u2, row_u1 Active]" tc "''pm_1''"
        "[row_u2, row_u1 Cancelled]" tr]
  have w: "derived_consistent (jan15 + day) (fst res)"
    using t hw' by blast
  have c: "derived_consistent (jan15 + day) (tc ! 1)"
    using t hc mc sc by blast
  have r: "derived_consistent (jan15 + day) (tr ! 1)"
    using t hr mr sr by blast
  show ?thesis using w c r sw by (simp add: hw hc hr)
qed

text \<open>
  Claim C7 at a user with two rows. The current subscription of user \<open>u1\<close>, the row created
  last, which \<^verbatim>\<open>get_subscription_access_status\<close> reports, is \<open>active\<close>.
  \<^verbatim>\<open>cancel_subscription_safe\<close> reads the first row of the user that the scan meets, the
  older row with status \<open>expired\<close>, and raises "Subscription is not active".
\<close>
theorem cancel_checks_older_row:
  "status_out (get_subscription_access_status (jan15 + day) ''u1''
                 [row_u1_old, row_u1 Active, row_u2]) = Active \<and>
   created_at_out (get_subscription_access_status (jan15 + day) ''u1''
                 [row_u1_old, row_u1 Active, row_u2]) = created_at (row_u1 Active) \<and>
   created_at row_u1_old < created_at (row_u1 Active) \<and>
   cancel_subscription_safe (jan15 + day) ''u1'' None [row_u1_old, row_u1 Active, row_u2]
     = Inl Subscription_not_active"
  by code_simp

text \<open>
  Claim C8 at a user with two rows. The current subscription of user \<open>u1\<close>, the row created
  last, is \<open>cancelled\<close> with its period end after \<open>now\<close>. \<^verbatim>\<open>reactivate_subscription\<close> reads
  the first row of the user that the scan meets, the older row with status \<open>expired\<close>, and
  raises "Subscription is not cancelled".
\<close>
theorem reactivate_checks_older_row:
  "status_out (get_subscription_access_status (jan15 + day) ''u1''
                 [row_u1_old, row_u1 Cancelled, row_u2]) = Cancelled \<and>
   \<not> is_expired (get_subscription_access_status (jan15 + day) ''u1''
                 [row_u1_old, row_u1 Cancelled, row_u2]) \<and>
   created_at row_u1_old < created_at (row_u1 Cancelled) \<and>
   reactivate_subscription (jan15 + day) ''u1'' ''pm_1'' [row_u1_old, row_u1 Cancelled, row_u2]
     = Inl Subscription_not_cancelled"
  by code_simp

text \<open>
  Claim C9, as the code has it. If every row has its period end after its period start,
  this still holds after a successful \<^verbatim>\<open>handle_subscription_webhook\<close> whose
  \<^verbatim>\<open>p_period_end\<close> is null (the end is then calculated from the plan) or lies after the
  start the call uses, after every successful \<^verbatim>\<open>cancel_subscription_safe\<close> and after every
  successful \<^verbatim>\<open>reactivate_subscription\<close>. The handler stores explicit bounds as they come.
\<close>
theorem period_ordered_preserved:
  "(handle_subscription_webhook now new_id u plan p_status sid cid p_start p_end tbl_w
      = Inr (record, tbl_w') \<and>
    (\<forall>r \<in> set tbl_w. period_ordered r) \<and>
    (case p_end of None \<Rightarrow> True
     | Some e \<Rightarrow> (case p_start of None \<Rightarrow> now | Some s \<Rightarrow> s) < e) \<longrightarrow>
      period_ordered record \<and> (\<forall>r \<in> set tbl_w'. period_ordered r)) \<and>
   (cancel_subscription_safe now u reason tbl_c = Inr tbl_c' \<and>
    (\<forall>r \<in> set tbl_c. period_ordered r) \<longrightarrow>
      (\<forall>r \<in> set tbl_c'. period_ordered r)) \<and>
   (reactivate_subscription now u pm tbl_r = Inr tbl_r' \<and>
    (\<forall>r \<in> set tbl_r. period_ordered r) \<longrightarrow>
      (\<forall>r \<in> set tbl_r'. period_ordered r))"
proof (intro conjI impI; elim conjE)
  assume a: "handle_subscription_webhook now new_id u plan p_status sid cid p_start p_end tbl_w
               = Inr (record, tbl_w')"
    and b: "\<forall>r \<in> set tbl_w. period_ordered r"
    and c: "case p_end of None \<Rightarrow> True
            | Some e \<Rightarrow> (case p_start of None \<Rightarrow> now | Some s \<Rightarrow> s) < e"
  show "period_ordered record"
    using webhook_period_ordered [OF a b c] by (rule conjunct1)
  show "\<forall>r \<in> set tbl_w'. period_ordered r"
    using webhook_period_ordered [OF a b c] by (rule conjunct2)
next
  assume "cancel_subscription_safe now u reason tbl_c = Inr tbl_c'"
    and "\<forall>r \<in> set tbl_c. period_ordered r"
  then show "\<forall>r \<in> set tbl_c'. period_ordered r"
    by (rule cancel_period_ordered)
next
  assume "reactivate_subscription now u pm tbl_r = Inr tbl_r'"
    and "\<forall>r \<in> set tbl_r. period_ordered r"
  then show "\<forall>r \<in> set tbl_r'. period_ordered r"
    by (rule reactivate_period_ordered)
qed

theorem period_ordered_preserved_witness:
  "list_all period_ordered [row_u2, row_u1 Active] \<and>
   list_all period_ordered [row_u2, row_u1 Cancelled] \<and>
   period_ordered
     (fst (projr (handle_subscription_webhook (jan15 + day) ''s9'' ''u1'' Annual ''past_due''
                    None (Some ''cus_B'') (Some jan15) None [row_u2, row_u1 Active]))) \<and>
   list_all period_ordered
     (snd (projr (handle_subscription_webhook (jan15 + day) ''s9'' ''u1'' Annual ''past_due''
                    None (Some ''cus_B'') (Some jan15) None [row_u2, row_u1 Active]))) \<and>
   list_all period_ordered
     (projr (cancel_subscription_safe (jan15 + day) ''u1'' None [row_u2, row_u1 Active])) \<and>
   list_all period_ordered
     (projr (reactivate_subscription (jan15 + day) ''u1'' ''pm_1'' [row_u2, row_u1 Cancelled]))"
proof -
  from webhook_update_example obtain res where
    hw: "handle_subscription_webhook (jan15 + day) ''s9'' ''u1'' Annual ''past_due''
           None (Some ''cus_B'') (Some jan15) None [row_u2, row_u1 Active] = Inr res"
    and sw: "snd res = [row_u2, fst res] \<and> user_id (fst res) = ''u1''"
    by (rule Inr_caseE)
  from cancel_example obtain tc where
    hc: "cancel_subscription_safe (jan15 + day) ''u1'' None [row_u2, row_u1 Active] = Inr tc"
    and sc: "length tc = 2 \<and> tc ! 0 = row_u2 \<and> user_id (tc ! 1) = ''u1''"
    by (rule Inr_caseE)
  from reactivate_example obtain tr where
    hr: "reactivate_subscription (jan15 + day) ''u1'' ''pm_1'' [row_u2, row_u1 Cancelled] = Inr tr"
    and sr: "length tr = 2 \<and> tr ! 0 = row_u2 \<and> user_id (tr ! 1) = ''u1''"
    by (rule Inr_caseE)
  have hw': "handle_subscription_webhook (jan15 + day) ''s9'' ''u1'' Annual ''past_due''
           None (Some ''cus_B'') (Some jan15) None [row_u2, row_u1 Active] = Inr (fst res, snd res)"
    using hw by simp
  have a: "\<forall>r \<in> set [row_u2, row_u1 Active]. period_ordered r"
    and b: "\<forall>r \<in> set [row_u2, row_u1 Cancelled]. period_ordered r"
    by (simp_all add: rows_period_ordered)
  have e: "case None of None \<Rightarrow> True
           | Some e \<Rightarrow> (case Some jan15 of None \<Rightarrow> jan15 + day | Some s \<Rightarrow> s) < e"
    by simp
  note t = period_ordered_preserved
    [of "jan15 + day" "''s9''" "''u1''" Annual "''past_due''" None "Some ''cus_B''" "Some jan15" None
        "[row_u2, row_u1 Active]" "fst res" "snd res" None "[row_u2, row_u1 Active]" tc "''pm_1''"
        "[row_u2, row_u1 Cancelled]" tr]
  have w: "period_ordered (fst res) \<and> (\<forall>r \<in> set (snd res). period_ordered r)"
    using t hw' a e by blast
  have c: "\<forall>r \<in> set tc. period_ordered r"
    using t hc a by blast
  have r: "\<forall>r \<in> set tr. period_ordered r"
    using t hr b by blast
  show ?thesis
    using w c r by (simp add: hw hc hr list_all_iff rows_period_ordered)
qed

text \<open>
  Against claim C9 as stated: a call that supplies a period end before the period start
  stores both, and the row it writes has its period end before its period start.
\<close>
theorem webhook_explicit_bounds_unordered:
  "map period_ordered
     (snd (projr (handle_subscription_webhook jan15 ''s9'' ''u9'' Monthly ''active''
                    (Some ''sub_B'') (Some ''cus_B'') (Some (jan15 + 31 * day)) (Some jan15) [])))
     = [False]"
  by code_simp

text \<open>
  Claim C10. For a user with no row, \<^verbatim>\<open>cancel_subscription_safe\<close> and
  \<^verbatim>\<open>reactivate_subscription\<close> both raise "No subscription found for user", and the table
  is left as it was.
\<close>
theorem no_subscription_found:
  assumes "\<forall>r \<in> set tbl. user_id r \<noteq> u"
  shows "cancel_subscription_safe now u reason tbl = Inl No_subscription_found \<and>
         table_after (cancel_subscription_safe now u reason tbl) tbl = tbl \<and>
         reactivate_subscription now u pm tbl = Inl No_subscription_found \<and>
         table_after (reactivate_subscription now u pm tbl) tbl = tbl"
proof -
  have "select_by_user u tbl = None" using assms by (simp add: select_by_user_None)
  then show ?thesis
    by (simp add: cancel_subscription_safe_def reactivate_subscription_def table_after_def)
qed

theorem no_subscription_found_witness:
  "cancel_subscription_safe jan15 ''u1'' None [row_u2] = Inl No_subscription_found \<and>
   table_after (cancel_subscription_safe jan15 ''u1'' None [row_u2]) [row_u2] = [row_u2] \<and>
   reactivate_subscription jan15 ''u1'' ''pm_1'' [row_u2] = Inl No_subscription_found \<and>
   table_after (reactivate_subscription jan15 ''u1'' ''pm_1'' [row_u2]) [row_u2] = [row_u2]"
proof -
  have h: "\<forall>r \<in> set [row_u2]. user_id r \<noteq> ''u1''" by (simp add: row_defs)
  show ?thesis by (rule no_subscription_found [OF h])
qed

end
